theory Spec2Isabelle
  imports Complex_Main
begin

section \<open>Python values and string helpers\<close>

text \<open>
  Timestamps are the floats Python reads from \<open>stat().st_mtime\<close> and
  \<open>LastModified.timestamp()\<close>. The code only compares them with \<open>>\<close>; finite floats
  are real numbers with the same order, so the model takes them as reals.
\<close>

type_synonym timestamp = real

text \<open>
  The exceptions of the SDK calls. \<open>ClientError c\<close> is botocore's \<open>ClientError\<close> with
  \<open>e.response['Error']['Code'] = c\<close>; \<open>OtherError\<close> stands for every exception that
  \<open>except ClientError\<close> does not catch (named by its class).
\<close>

datatype exn = ClientError string | OtherError string

text \<open>\<open>s.rstrip('/')\<close>, \<open>s.lstrip('/')\<close>, \<open>s.startswith(p)\<close> and \<open>s.replace('//', '/')\<close>.\<close>

definition rstrip :: "string \<Rightarrow> string" where
  "rstrip s = rev (dropWhile (\<lambda>c. c = CHR ''/'') (rev s))"

definition lstrip :: "string \<Rightarrow> string" where
  "lstrip s = dropWhile (\<lambda>c. c = CHR ''/'') s"

definition startswith :: "string \<Rightarrow> string \<Rightarrow> bool" where
  "startswith s p = (take (length p) s = p)"

text \<open>
  \<open>str.replace\<close> scans from the left and replaces non-overlapping occurrences, so
  \<open>'///'\<close> becomes \<open>'//'\<close>.
\<close>

fun replace_double_slash :: "string \<Rightarrow> string" where
  "replace_double_slash (a # b # cs) =
     (if a = CHR ''/'' \<and> b = CHR ''/'' then CHR ''/'' # replace_double_slash cs
      else a # replace_double_slash (b # cs))"
| "replace_double_slash cs = cs"

text \<open>
  The values found in the S3 configuration dictionary: what \<open>config_manager.py\<close> writes
  (strings and booleans) and the \<open>None\<close> of the defaults. Numbers, arrays and nested
  objects of a hand-edited file are not modelled.
\<close>

datatype jval = JNull | JBool bool | JStr string

fun truthy :: "jval \<Rightarrow> bool" where
  "truthy JNull = False"
| "truthy (JBool b) = b"
| "truthy (JStr s) = (s \<noteq> [])"

type_synonym config = "string \<rightharpoonup> jval"

section \<open>The files and objects being reconciled\<close>

text \<open>
  A local candidate file, as far as \<open>upload_to_s3\<close> looks at it: \<open>local_file.name\<close>,
  \<open>local_file.parent.name\<close> and \<open>local_file.stat().st_mtime\<close>.
\<close>

record local_file =
  name :: string
  parent_name :: string
  st_mtime :: timestamp

text \<open>An entry of \<open>response['Contents']\<close>.\<close>

record s3_object =
  Key :: string
  LastModified :: timestamp

section \<open>pathlib: the paths of the local file system\<close>

text \<open>
  A \<open>pathlib.Path\<close> on a POSIX system is its sequence of parts: the root \<open>/\<close>
  first when the path is absolute, then its components. Building a path from a string
  splits it at the slashes and drops the empty components (doubled and trailing slashes)
  and the components \<open>.\<close>; a component \<open>..\<close> is kept.
\<close>

type_synonym path = "string list"

fun split_slash :: "string \<Rightarrow> string list" where
  "split_slash [] = [[]]"
| "split_slash (c # cs) =
     (if c = CHR ''/'' then [] # split_slash cs
      else (case split_slash cs of [] \<Rightarrow> [[c]] | x # xs \<Rightarrow> (c # x) # xs))"

text \<open>
  \<open>Path(s)\<close>. POSIX allows a root \<open>//\<close> of its own and pathlib keeps it for a
  string with exactly two leading slashes; Linux and macOS resolve it as \<open>/\<close>, and so
  does the model.
\<close>

definition Path :: "string \<Rightarrow> path" where
  "Path s = (if startswith s ''/'' then [''/''] else []) @
            filter (\<lambda>c. c \<noteq> [] \<and> c \<noteq> ''.'') (split_slash s)"

text \<open>\<open>p / s\<close> for a string \<open>s\<close>: an absolute \<open>s\<close> replaces \<open>p\<close>.\<close>

definition joinpath :: "path \<Rightarrow> string \<Rightarrow> path" where
  "joinpath p s = (if startswith s ''/'' then Path s else p @ Path s)"

text \<open>\<open>p.parent\<close>: the root and the empty path \<open>.\<close> are their own parents.\<close>

definition parent :: "path \<Rightarrow> path" where
  "parent p = (if p = [''/''] then p else butlast p)"

text \<open>
  \<open>p.is_relative_to(other)\<close>: \<open>other\<close> is \<open>p\<close> or one of the directories on the
  way to \<open>p\<close>.
\<close>

definition is_relative_to :: "path \<Rightarrow> path \<Rightarrow> bool" where
  "is_relative_to p other = (take (length other) p = other)"

text \<open>
  A plain path: absolute, every part after the root a name (not empty, not \<open>.\<close> or
  \<open>..\<close>, without a slash).
\<close>

definition component :: "string \<Rightarrow> bool" where
  "component c = (c \<noteq> [] \<and> c \<noteq> ''.'' \<and> c \<noteq> ''..'' \<and> CHR ''/'' \<notin> set c)"

definition plain :: "path \<Rightarrow> bool" where
  "plain p = (case p of [] \<Rightarrow> False | r # cs \<Rightarrow> r = ''/'' \<and> list_all component cs)"

text \<open>
  Paths that are pairwise apart: none is another, or a directory on the way to another.
\<close>

fun apart :: "path list \<Rightarrow> bool" where
  "apart [] = True"
| "apart (p # ps) =
     ((\<forall>q\<in>set ps. \<not> is_relative_to p q \<and> \<not> is_relative_to q p) \<and> apart ps)"

section \<open>The world: the S3 client, the local file system, the log\<close>

datatype log_line =
    Warning_no_local_files
  | Debug_skipping_upload local_file
  | Info_would_upload local_file string
  | Info_uploading local_file string
  | Error_failed_to_upload local_file exn
  | Info_uploaded nat nat
  | Info_would_upload_total nat nat
  | Warning_no_files_found
  | Debug_skipping_download string
  | Info_would_download string path
  | Info_downloading string path
  | Info_downloaded nat nat
  | Info_would_download_total nat nat
  | Error_failed_to_download exn
  | Info_testing_connection
  | Info_bucket_accessible
  | Info_bucket_region string
  | Info_list_permission_confirmed
  | Warning_limited_list_permissions
  | Info_connection_test_successful
  | Error_connection_test_failed exn
  | Error_bucket_not_configured
  | Error_sync_disabled
  | Error_failed_to_create_client
  | Info_starting_upload
  | Info_starting_download

datatype io_call =
    HeadObject string
  | UploadFile local_file string
  | ListObjectsV2 string
  | DownloadFile string path
  | HeadBucket
  | Mkdir_db_dir
  | Mkdir_parent path

datatype event = Log log_line | Call io_call

text \<open>
  How the outside answers, fixed during a run. For the S3 service: the error, if any, each
  call raises for a key, the \<open>LastModified\<close> the service gives an object written under
  a key, the response to \<open>list_objects_v2\<close> for a prefix (\<open>None\<close> is a response
  with no \<open>Contents\<close>) and the response to \<open>head_bucket\<close>. For the local file
  system: the modification time it gives a path written now (a file that is written, a
  directory that is created or in which an entry is created).
\<close>

record surroundings =
  head_fault :: "string \<Rightarrow> exn option"
  upload_fault :: "string \<Rightarrow> exn option"
  upload_stamp :: "string \<Rightarrow> timestamp"
  list_response :: "string \<Rightarrow> exn + s3_object list option"
  download_fault :: "string \<Rightarrow> exn option"
  head_bucket_response :: "exn + string option"
  write_stamp :: "path \<Rightarrow> timestamp"

text \<open>
  The world the functions run against: the surroundings, the objects of the bucket (key
  to \<open>LastModified\<close>), the modification time of each existing local file
  (\<open>mtimes\<close>) and of each existing local directory (\<open>dirs\<close>), and the trace of
  every log line and every call so far, in order.

  A path is taken to name one file: two paths are the same file exactly when they have
  the same parts. This is so for plain paths on a case-sensitive file system without
  links; a relative path, or one that goes through \<open>..\<close>, names a file that its parts
  alone do not tell.
\<close>

record world =
  surr :: surroundings
  objects :: "string \<rightharpoonup> timestamp"
  mtimes :: "path \<rightharpoonup> timestamp"
  dirs :: "path \<rightharpoonup> timestamp"
  trace :: "event list"

text \<open>A call either raises (left) or returns (right); both carry the world it leaves.\<close>

type_synonym 'a outcome = "exn \<times> world + 'a \<times> world"

definition emit :: "event \<Rightarrow> world \<Rightarrow> world" where
  "emit e w = w\<lparr>trace := trace w @ [e]\<rparr>"

definition logger :: "log_line \<Rightarrow> world \<Rightarrow> world" where
  "logger l w = emit (Log l) w"

text \<open>
  \<open>s3_client.head_object(Bucket, Key)['LastModified'].timestamp()\<close>: a missing key is
  the client error with code \<open>404\<close>.
\<close>

definition head_response :: "world \<Rightarrow> string \<Rightarrow> exn + timestamp" where
  "head_response w k =
     (case head_fault (surr w) k of
        Some e \<Rightarrow> Inl e
      | None \<Rightarrow> (case objects w k of None \<Rightarrow> Inl (ClientError ''404'') | Some t \<Rightarrow> Inr t))"

definition head_object :: "world \<Rightarrow> string \<Rightarrow> timestamp outcome" where
  "head_object w k =
     (let w' = emit (Call (HeadObject k)) w
      in case head_response w k of Inl e \<Rightarrow> Inl (e, w') | Inr t \<Rightarrow> Inr (t, w'))"

text \<open>\<open>s3_client.upload_file(str(local_file), bucket, s3_key)\<close>.\<close>

definition upload_file :: "world \<Rightarrow> local_file \<Rightarrow> string \<Rightarrow> unit outcome" where
  "upload_file w f k =
     (let w' = emit (Call (UploadFile f k)) w
      in case upload_fault (surr w) k of
           Some e \<Rightarrow> Inl (e, w')
         | None \<Rightarrow> Inr ((), w'\<lparr>objects := (objects w')(k \<mapsto> upload_stamp (surr w) k)\<rparr>))"

text \<open>\<open>s3_client.list_objects_v2(Bucket, Prefix)\<close>.\<close>

definition list_objects_v2 :: "world \<Rightarrow> string \<Rightarrow> s3_object list option outcome" where
  "list_objects_v2 w prefix =
     (let w' = emit (Call (ListObjectsV2 prefix)) w
      in case list_response (surr w) prefix of Inl e \<Rightarrow> Inl (e, w') | Inr r \<Rightarrow> Inr (r, w'))"

text \<open>
  A directory in which an entry is created or replaced gets a new modification time.
\<close>

definition entry_changed :: "path \<Rightarrow> world \<Rightarrow> world" where
  "entry_changed d w =
     (if dirs w d = None then w else w\<lparr>dirs := (dirs w)(d \<mapsto> write_stamp (surr w) d)\<rparr>)"

text \<open>
  \<open>p.mkdir(parents=True, exist_ok=True)\<close>: nothing happens when \<open>p\<close> is a directory;
  otherwise the parent is made in the same way and \<open>p\<close> is created in it. The first
  argument of \<open>mkdir_rev\<close> is the path with its last part first. The model takes every
  \<open>mkdir\<close> to succeed: no file stands where a directory is to be, and the directories
  may be created.
\<close>

fun mkdir_rev :: "string list \<Rightarrow> world \<Rightarrow> world" where
  "mkdir_rev [] w = w"
| "mkdir_rev (c # r) w =
     (if dirs w (rev (c # r)) \<noteq> None then w
      else let w1 = entry_changed (rev r) (mkdir_rev r w)
           in w1\<lparr>dirs := (dirs w1)(rev (c # r) \<mapsto> write_stamp (surr w1) (rev (c # r)))\<rparr>)"

definition mkdir :: "path \<Rightarrow> world \<Rightarrow> world" where
  "mkdir p w = mkdir_rev (rev p) w"

text \<open>
  \<open>s3_client.download_file(bucket, s3_key, str(local_file))\<close>: on success the file is
  written and its directory gets a new modification time.
\<close>

definition download_file :: "world \<Rightarrow> string \<Rightarrow> path \<Rightarrow> unit outcome" where
  "download_file w k p =
     (let w' = emit (Call (DownloadFile k p)) w
      in case download_fault (surr w) k of
           Some e \<Rightarrow> Inl (e, w')
         | None \<Rightarrow>
             Inr ((), entry_changed (parent p) (w'\<lparr>mtimes := (mtimes w')(p \<mapsto> write_stamp (surr w) p)\<rparr>)))"

text \<open>
  \<open>local_file.exists()\<close> and \<open>local_file.stat().st_mtime\<close> (read only when the path
  exists): the path may be a file or a directory.
\<close>

definition exists :: "world \<Rightarrow> path \<Rightarrow> bool" where
  "exists w p = (mtimes w p \<noteq> None \<or> dirs w p \<noteq> None)"

definition stat_mtime :: "world \<Rightarrow> path \<Rightarrow> timestamp" where
  "stat_mtime w p = (case mtimes w p of Some t \<Rightarrow> t | None \<Rightarrow> the (dirs w p))"

text \<open>\<open>s3_client.head_bucket(Bucket)\<close>, returning \<open>response.get('BucketRegion')\<close>.\<close>

definition head_bucket :: "world \<Rightarrow> string option outcome" where
  "head_bucket w =
     (let w' = emit (Call HeadBucket) w
      in case head_bucket_response (surr w) of Inl e \<Rightarrow> Inl (e, w') | Inr r \<Rightarrow> Inr (r, w'))"

section \<open>s3\_sync.py: upload\<close>

text \<open>Lines 147 to 151: the S3 key of a local file.\<close>

definition s3_key_of :: "string \<Rightarrow> local_file \<Rightarrow> string" where
  "s3_key_of prefix local_file =
     (let relative_path =
            (if parent_name local_file = ''.cvdupdate'' then ''metadata/'' @ name local_file
             else name local_file)
      in replace_double_slash (prefix @ relative_path))"

text \<open>
  Lines 175 to 182, reached with \<open>should_upload\<close> true: report or copy, then count the
  file.
\<close>

definition upload_selected :: "bool \<Rightarrow> local_file \<Rightarrow> string \<Rightarrow> nat \<Rightarrow> world \<Rightarrow> nat outcome" where
  "upload_selected dry_run local_file s3_key success_count w =
     (if dry_run then Inr (success_count + 1, logger (Info_would_upload local_file s3_key) w)
      else case upload_file (logger (Info_uploading local_file s3_key) w) local_file s3_key of
             Inl ew \<Rightarrow> Inl ew
           | Inr (_, w') \<Rightarrow> Inr (success_count + 1, w'))"

text \<open>
  Lines 154 to 182, the body of the outer \<open>try\<close>. The inner \<open>except ClientError\<close> turns
  the code \<open>404\<close> into \<open>should_upload = True\<close> and raises every other client error
  again; exceptions of other classes pass through both handlers.
\<close>

definition upload_try :: "bool \<Rightarrow> bool \<Rightarrow> local_file \<Rightarrow> string \<Rightarrow> nat \<Rightarrow> world \<Rightarrow> nat outcome" where
  "upload_try force dry_run local_file s3_key success_count w =
     (if force then upload_selected dry_run local_file s3_key success_count w
      else case head_object w s3_key of
             Inr (s3_modified, w1) \<Rightarrow>
               if st_mtime local_file > s3_modified
               then upload_selected dry_run local_file s3_key success_count w1
               else Inr (success_count, logger (Debug_skipping_upload local_file) w1)
           | Inl (ClientError c, w1) \<Rightarrow>
               if c = ''404'' then upload_selected dry_run local_file s3_key success_count w1
               else Inl (ClientError c, w1)
           | Inl (OtherError x, w1) \<Rightarrow> Inl (OtherError x, w1))"

text \<open>
  Lines 145 to 186, one iteration of the loop: the outer \<open>except ClientError\<close> logs the
  failure and continues with the next file.
\<close>

definition upload_one :: "string \<Rightarrow> bool \<Rightarrow> bool \<Rightarrow> local_file \<Rightarrow> nat \<Rightarrow> world \<Rightarrow> nat outcome" where
  "upload_one prefix force dry_run local_file success_count w =
     (let s3_key = s3_key_of prefix local_file
      in case upload_try force dry_run local_file s3_key success_count w of
           Inl (ClientError c, w1) \<Rightarrow>
             Inr (success_count, logger (Error_failed_to_upload local_file (ClientError c)) w1)
         | Inl (OtherError x, w1) \<Rightarrow> Inl (OtherError x, w1)
         | Inr r \<Rightarrow> Inr r)"

fun upload_loop :: "string \<Rightarrow> bool \<Rightarrow> bool \<Rightarrow> local_file list \<Rightarrow> nat \<Rightarrow> world \<Rightarrow> nat outcome" where
  "upload_loop prefix force dry_run [] success_count w = Inr (success_count, w)"
| "upload_loop prefix force dry_run (local_file # rest) success_count w =
     (case upload_one prefix force dry_run local_file success_count w of
        Inl ew \<Rightarrow> Inl ew
      | Inr (success_count', w') \<Rightarrow> upload_loop prefix force dry_run rest success_count' w')"

text \<open>
  \<open>upload_to_s3(s3_client, bucket, prefix, local_files, force, dry_run, logger)\<close>. The
  client and the logger are the world; the bucket is the one the world describes.
\<close>

definition upload_to_s3 :: "world \<Rightarrow> string \<Rightarrow> local_file list \<Rightarrow> bool \<Rightarrow> bool \<Rightarrow> bool outcome" where
  "upload_to_s3 w prefix local_files force dry_run =
     (if local_files = [] then Inr (True, logger Warning_no_local_files w)
      else let total_files = length local_files
           in case upload_loop prefix force dry_run local_files 0 w of
                Inl ew \<Rightarrow> Inl ew
              | Inr (success_count, w') \<Rightarrow>
                  Inr (success_count = total_files,
                       logger (if \<not> dry_run then Info_uploaded success_count total_files
                               else Info_would_upload_total success_count total_files) w'))"

section \<open>s3\_sync.py: download\<close>

text \<open>Lines 212 to 218: the local path of a listed key.\<close>

definition relative_path_of :: "string \<Rightarrow> string \<Rightarrow> string" where
  "relative_path_of prefix s3_key = lstrip (drop (length prefix) s3_key)"

definition local_path_of :: "path \<Rightarrow> string \<Rightarrow> string \<Rightarrow> path" where
  "local_path_of db_dir prefix s3_key =
     (let relative_path = relative_path_of prefix s3_key
      in if startswith relative_path ''metadata/''
         then joinpath (parent db_dir) (drop 9 relative_path)
         else joinpath db_dir relative_path)"

text \<open>Lines 233 to 240, reached with \<open>should_download\<close> true.\<close>

definition download_selected :: "bool \<Rightarrow> string \<Rightarrow> path \<Rightarrow> nat \<Rightarrow> world \<Rightarrow> nat outcome" where
  "download_selected dry_run s3_key local_file success_count w =
     (if dry_run then Inr (success_count + 1, logger (Info_would_download s3_key local_file) w)
      else let w1 = logger (Info_downloading s3_key local_file) w;
               w2 = mkdir (parent local_file) (emit (Call (Mkdir_parent local_file)) w1)
           in case download_file w2 s3_key local_file of
                Inl ew \<Rightarrow> Inl ew
              | Inr (_, w') \<Rightarrow> Inr (success_count + 1, w'))"

text \<open>
  Lines 210 to 240, one iteration of the loop. \<open>should_download\<close> starts as \<open>force\<close> and
  is recomputed only when the local file exists.
\<close>

definition download_one :: "string \<Rightarrow> path \<Rightarrow> bool \<Rightarrow> bool \<Rightarrow> s3_object \<Rightarrow> nat \<Rightarrow> world \<Rightarrow> nat outcome" where
  "download_one prefix db_dir force dry_run obj success_count w =
     (let s3_key = Key obj;
          relative_path = relative_path_of prefix s3_key;
          local_file = local_path_of db_dir prefix s3_key;
          should_download = force
      in if \<not> force \<and> exists w local_file
         then (let s3_modified = LastModified obj;
                   local_modified = stat_mtime w local_file;
                   should_download = (s3_modified > local_modified)
               in if \<not> should_download
                  then Inr (success_count, logger (Debug_skipping_download relative_path) w)
                  else download_selected dry_run s3_key local_file success_count w)
         else if should_download
              then download_selected dry_run s3_key local_file success_count w
              else Inr (success_count, w))"

fun download_loop :: "string \<Rightarrow> path \<Rightarrow> bool \<Rightarrow> bool \<Rightarrow> s3_object list \<Rightarrow> nat \<Rightarrow> world \<Rightarrow> nat outcome" where
  "download_loop prefix db_dir force dry_run [] success_count w = Inr (success_count, w)"
| "download_loop prefix db_dir force dry_run (obj # rest) success_count w =
     (case download_one prefix db_dir force dry_run obj success_count w of
        Inl ew \<Rightarrow> Inl ew
      | Inr (success_count', w') \<Rightarrow>
          download_loop prefix db_dir force dry_run rest success_count' w')"

text \<open>
  \<open>download_from_s3(s3_client, bucket, prefix, db_dir, force, dry_run, logger)\<close>: one
  \<open>try\<close> around the listing and the whole loop, whose \<open>except ClientError\<close> returns
  \<open>False\<close>. \<open>db_dir.mkdir\<close> runs in a dry run too.
\<close>

definition download_from_s3 :: "world \<Rightarrow> string \<Rightarrow> path \<Rightarrow> bool \<Rightarrow> bool \<Rightarrow> bool outcome" where
  "download_from_s3 w prefix db_dir force dry_run =
     (let body =
        (case list_objects_v2 w prefix of
           Inl ew \<Rightarrow> Inl ew
         | Inr (None, w1) \<Rightarrow> Inr (True, logger Warning_no_files_found w1)
         | Inr (Some contents, w1) \<Rightarrow>
             (let w2 = mkdir db_dir (emit (Call Mkdir_db_dir) w1);
                  total_files = length contents
              in case download_loop prefix db_dir force dry_run contents 0 w2 of
                   Inl ew \<Rightarrow> Inl ew
                 | Inr (success_count, w3) \<Rightarrow>
                     Inr (True,
                          logger (if \<not> dry_run then Info_downloaded success_count total_files
                                  else Info_would_download_total success_count total_files) w3)))
      in case body of
           Inl (ClientError c, w') \<Rightarrow> Inr (False, logger (Error_failed_to_download (ClientError c)) w')
         | Inl (OtherError x, w') \<Rightarrow> Inl (OtherError x, w')
         | Inr r \<Rightarrow> Inr r)"

section \<open>s3\_sync.py: connection test\<close>

text \<open>
  \<open>test_s3_connection(s3_client, bucket, logger)\<close>. The probe
  \<open>list_objects_v2(Bucket, MaxKeys=1)\<close> has no prefix; it is the listing of the empty
  prefix.
\<close>

definition test_s3_connection :: "world \<Rightarrow> bool outcome" where
  "test_s3_connection w =
     (let body =
        (case head_bucket (logger Info_testing_connection w) of
           Inl ew \<Rightarrow> Inl ew
         | Inr (response, w1) \<Rightarrow>
             (let w2 = logger Info_bucket_accessible w1;
                  w3 = logger (Info_bucket_region
                                 (case response of None \<Rightarrow> ''unknown'' | Some r \<Rightarrow> r)) w2
              in case list_objects_v2 w3 [] of
                   Inr (_, w4) \<Rightarrow>
                     Inr (True, logger Info_connection_test_successful
                                  (logger Info_list_permission_confirmed w4))
                 | Inl (ClientError c, w4) \<Rightarrow>
                     if c = ''AccessDenied''
                     then Inr (True, logger Info_connection_test_successful
                                       (logger Warning_limited_list_permissions w4))
                     else Inl (ClientError c, w4)
                 | Inl (OtherError x, w4) \<Rightarrow> Inl (OtherError x, w4)))
      in case body of
           Inl (ClientError c, w') \<Rightarrow>
             Inr (False, logger (Error_connection_test_failed (ClientError c)) w')
         | Inl (OtherError x, w') \<Rightarrow> Inl (OtherError x, w')
         | Inr r \<Rightarrow> Inr r)"

section \<open>s3\_sync.py: configuration and main\<close>

text \<open>
  The file \<open>~/.cvdupdate/s3_config.json\<close> as a load finds it: absent; holding a
  dictionary; or present and not loadable, \<open>open\<close> or \<open>json.load\<close> raising the
  exception of the named class (\<open>JSONDecodeError\<close> for a file that is not valid JSON,
  \<open>PermissionError\<close> or \<open>IsADirectoryError\<close> for one that cannot be opened,
  \<open>UnicodeDecodeError\<close> for one that is not text).
\<close>

datatype config_file = No_file | Load_raises string | Json config

definition default_config :: config where
  "default_config =
     [''bucket'' \<mapsto> JNull, ''region'' \<mapsto> JStr ''us-east-1'',
      ''prefix'' \<mapsto> JStr ''clamav/databases/'', ''sync_enabled'' \<mapsto> JBool False]"

text \<open>Truth value of \<open>os.environ.get(...)\<close>: set and not the empty string.\<close>

fun env_truthy :: "string option \<Rightarrow> bool" where
  "env_truthy None = False"
| "env_truthy (Some s) = (s \<noteq> [])"

text \<open>
  \<open>load_s3_config()\<close> of s3\_sync.py; its arguments are the two environment variables
  \<open>S3_BUCKET_NAME\<close> and \<open>S3_REGION\<close> and the configuration file. The handler is
  \<open>except (json.JSONDecodeError, FileNotFoundError)\<close>: any other exception of the load
  leaves the function.
\<close>

definition load_s3_config :: "string option \<Rightarrow> string option \<Rightarrow> config_file \<Rightarrow> exn + config" where
  "load_s3_config env_bucket env_region file =
     (if env_truthy env_bucket
      then Inr [''bucket'' \<mapsto> JStr (the env_bucket),
                ''region'' \<mapsto> JStr (if env_truthy env_region then the env_region else ''us-east-1''),
                ''prefix'' \<mapsto> JStr ''clamav/databases/'',
                ''sync_enabled'' \<mapsto> JBool True]
      else case file of
             No_file \<Rightarrow> Inr default_config
           | Json c \<Rightarrow> Inr c
           | Load_raises x \<Rightarrow>
               if x = ''JSONDecodeError'' \<or> x = ''FileNotFoundError'' then Inr default_config
               else Inl (OtherError x))"

record args =
  args_upload :: bool
  args_download :: bool
  args_test_connection :: bool
  args_force :: bool
  args_dry_run :: bool

text \<open>
  What \<open>main\<close> reads from the process and the machine: the environment variables, the
  configuration file, whether \<open>boto3.client\<close> raises, the directory that
  \<open>get_database_directory\<close> returns and the list that \<open>get_local_files\<close> returns.
\<close>

record host =
  env_S3_BUCKET_NAME :: "string option"
  env_S3_REGION :: "string option"
  s3_config_file :: config_file
  create_client_fails :: bool
  database_directory :: path
  local_files_found :: "local_file list"

text \<open>\<open>sys.exit(0 if success else 1)\<close>.\<close>

definition exit_status :: "bool \<Rightarrow> nat" where
  "exit_status success = (if success then 0 else 1)"

text \<open>A value as an f-string prints it.\<close>

fun py_str :: "jval \<Rightarrow> string" where
  "py_str JNull = ''None''"
| "py_str (JBool b) = (if b then ''True'' else ''False'')"
| "py_str (JStr s) = s"

text \<open>
  \<open>main()\<close> after argument parsing; the result is the exit code of the process. An
  exception of \<open>load_s3_config\<close> leaves \<open>main\<close>. A key
  missing from the configuration dictionary raises \<open>KeyError\<close>; inside the \<open>try\<close>
  around \<open>create_s3_client\<close> it is caught like every other exception there. A prefix
  that is not a string is printed into the key by the upload and refused by the SDK's
  parameter check in the download.
\<close>

text \<open>Lines 337 to 348 and line 361.\<close>

definition main_upload :: "args \<Rightarrow> host \<Rightarrow> config \<Rightarrow> world \<Rightarrow> nat outcome" where
  "main_upload a h s3_config w =
     (let w1 = logger Info_starting_upload w;
          local_files = local_files_found h
      in case s3_config ''prefix'' of
           None \<Rightarrow> Inl (OtherError ''KeyError'', w1)
         | Some prefix \<Rightarrow>
             (case upload_to_s3 w1 (py_str prefix) local_files (args_force a) (args_dry_run a) of
                Inl ew \<Rightarrow> Inl ew
              | Inr (success, w') \<Rightarrow> Inr (exit_status success, w')))"

text \<open>Lines 349 to 361.\<close>

definition main_download :: "args \<Rightarrow> host \<Rightarrow> config \<Rightarrow> world \<Rightarrow> nat outcome" where
  "main_download a h s3_config w =
     (let w1 = logger Info_starting_download w;
          db_dir = database_directory h
      in case s3_config ''prefix'' of
           None \<Rightarrow> Inl (OtherError ''KeyError'', w1)
         | Some (JStr prefix) \<Rightarrow>
             (case download_from_s3 w1 prefix db_dir (args_force a) (args_dry_run a) of
                Inl ew \<Rightarrow> Inl ew
              | Inr (success, w') \<Rightarrow> Inr (exit_status success, w'))
         | Some other \<Rightarrow> Inl (OtherError ''ParamValidationError'', w1))"

text \<open>Lines 325 to 361, with the client created.\<close>

definition main_action :: "args \<Rightarrow> host \<Rightarrow> config \<Rightarrow> world \<Rightarrow> nat outcome" where
  "main_action a h s3_config w =
     (if args_test_connection a
      then (case test_s3_connection w of
              Inl ew \<Rightarrow> Inl ew
            | Inr (success, w') \<Rightarrow> Inr (exit_status success, w'))
      else let upload = (if \<not> args_download a then True else args_upload a)
           in if upload then main_upload a h s3_config w else main_download a h s3_config w)"

definition main :: "args \<Rightarrow> host \<Rightarrow> world \<Rightarrow> nat outcome" where
  "main a h w =
     (case load_s3_config (env_S3_BUCKET_NAME h) (env_S3_REGION h) (s3_config_file h) of
        Inl e \<Rightarrow> Inl (e, w)
      | Inr s3_config \<Rightarrow>
          (case s3_config ''bucket'' of
             None \<Rightarrow> Inl (OtherError ''KeyError'', w)
           | Some bucket \<Rightarrow>
               if \<not> truthy bucket then Inr (1, logger Error_bucket_not_configured w)
               else (case s3_config ''sync_enabled'' of
                       None \<Rightarrow> Inl (OtherError ''KeyError'', w)
                     | Some sync_enabled \<Rightarrow>
                         if \<not> truthy sync_enabled then Inr (1, logger Error_sync_disabled w)
                         else if s3_config ''region'' = None \<or> create_client_fails h
                         then Inr (1, logger Error_failed_to_create_client w)
                         else main_action a h s3_config w)))"

section \<open>config\_manager.py: the S3 prefix\<close>

text \<open>
  \<open>load_s3_config()\<close> of config\_manager.py: the dictionary of the file, or \<open>{}\<close>
  when the file is absent or the load raises (\<open>except Exception\<close>).
\<close>

definition manager_load_s3_config :: "config_file \<Rightarrow> config" where
  "manager_load_s3_config file = (case file of Json c \<Rightarrow> c | _ \<Rightarrow> Map.empty)"

text \<open>
  \<open>set_s3_prefix(prefix)\<close>: the result is the file \<open>save_s3_config\<close> leaves.
\<close>

definition set_s3_prefix :: "string \<Rightarrow> config_file \<Rightarrow> config_file" where
  "set_s3_prefix prefix file =
     (let config = manager_load_s3_config file
      in Json (config(''prefix'' \<mapsto> JStr (if prefix \<noteq> [] then rstrip prefix @ ''/'' else []))))"

section \<open>Reading a run\<close>

text \<open>What a call returned or raised, and the world it left.\<close>

definition returned :: "'a outcome \<Rightarrow> exn + 'a" where
  "returned r = (case r of Inl (e, _) \<Rightarrow> Inl e | Inr (x, _) \<Rightarrow> Inr x)"

definition final :: "'a outcome \<Rightarrow> world" where
  "final r = (case r of Inl (_, w) \<Rightarrow> w | Inr (_, w) \<Rightarrow> w)"

text \<open>The events a run added to the trace.\<close>

definition events_since :: "world \<Rightarrow> world \<Rightarrow> event list" where
  "events_since w w' = drop (length (trace w)) (trace w')"

text \<open>
  The plan of a run, read off its log: the transfers it announced, as
  \<open>Uploading\<close>/\<open>Downloading\<close> in a real run and as \<open>[DRY RUN] Would ...\<close> in a
  dry run. These are the files for which \<open>should_upload\<close> (\<open>should_download\<close>) was
  true.
\<close>

definition upload_announced :: "event \<Rightarrow> (local_file \<times> string) list" where
  "upload_announced e =
     (case e of
        Log (Info_would_upload f k) \<Rightarrow> [(f, k)]
      | Log (Info_uploading f k) \<Rightarrow> [(f, k)]
      | _ \<Rightarrow> [])"

definition planned_uploads :: "event list \<Rightarrow> (local_file \<times> string) list" where
  "planned_uploads es = concat (map upload_announced es)"

definition download_announced :: "event \<Rightarrow> (string \<times> path) list" where
  "download_announced e =
     (case e of
        Log (Info_would_download k p) \<Rightarrow> [(k, p)]
      | Log (Info_downloading k p) \<Rightarrow> [(k, p)]
      | _ \<Rightarrow> [])"

definition planned_downloads :: "event list \<Rightarrow> (string \<times> path) list" where
  "planned_downloads es = concat (map download_announced es)"

text \<open>The files a run skipped as up to date, and the copies it executed.\<close>

definition upload_skipped :: "event \<Rightarrow> local_file list" where
  "upload_skipped e = (case e of Log (Debug_skipping_upload f) \<Rightarrow> [f] | _ \<Rightarrow> [])"

definition skipped_uploads :: "event list \<Rightarrow> local_file list" where
  "skipped_uploads es = concat (map upload_skipped es)"

definition copy_called :: "event \<Rightarrow> io_call list" where
  "copy_called e =
     (case e of
        Call (UploadFile f k) \<Rightarrow> [UploadFile f k]
      | Call (DownloadFile k p) \<Rightarrow> [DownloadFile k p]
      | _ \<Rightarrow> [])"

definition copies :: "event list \<Rightarrow> io_call list" where
  "copies es = concat (map copy_called es)"

section \<open>Example worlds\<close>

text \<open>Surroundings in which no call fails and every clock reads 1000.\<close>

definition quiet :: surroundings where
  "quiet =
     \<lparr>head_fault = (\<lambda>k. None), upload_fault = (\<lambda>k. None), upload_stamp = (\<lambda>k. 1000),
      list_response = (\<lambda>p. Inr None), download_fault = (\<lambda>k. None),
      head_bucket_response = Inr None, write_stamp = (\<lambda>p. 1000)\<rparr>"

definition main_cvd :: s3_object where
  "main_cvd = \<lparr>Key = ''clamav/databases/main.cvd'', LastModified = 500\<rparr>"

definition daily_cvd :: s3_object where
  "daily_cvd = \<lparr>Key = ''clamav/databases/daily.cvd'', LastModified = 600\<rparr>"

text \<open>
  The database directory of the examples, \<open>/home/clamav/.cvdupdate/database\<close>, and the
  directories of a machine on which it exists.
\<close>

definition database_dir :: path where
  "database_dir = [''/'', ''home'', ''clamav'', ''.cvdupdate'', ''database'']"

definition home_dirs :: "path \<rightharpoonup> timestamp" where
  "home_dirs =
     [[''/''] \<mapsto> 10, [''/'', ''home''] \<mapsto> 10, [''/'', ''home'', ''clamav''] \<mapsto> 10,
      [''/'', ''home'', ''clamav'', ''.cvdupdate''] \<mapsto> 100,
      [''/'', ''home'', ''clamav'', ''.cvdupdate'', ''database''] \<mapsto> 100]"

text \<open>A bucket holding \<open>main.cvd\<close> and an empty local mirror.\<close>

definition fresh_mirror :: world where
  "fresh_mirror =
     \<lparr>surr = quiet\<lparr>list_response := (\<lambda>p. Inr (Some [main_cvd]))\<rparr>,
      objects = [''clamav/databases/main.cvd'' \<mapsto> 500], mtimes = Map.empty,
      dirs = home_dirs, trace = []\<rparr>"

text \<open>
  A bucket holding two objects, both newer than their local copies, in which reading
  \<open>main.cvd\<close> is denied.
\<close>

definition denied_first :: world where
  "denied_first =
     \<lparr>surr = quiet\<lparr>list_response := (\<lambda>p. Inr (Some [main_cvd, daily_cvd])),
                    download_fault := (\<lambda>k. if k = ''clamav/databases/main.cvd''
                                             then Some (ClientError ''AccessDenied'') else None)\<rparr>,
      objects = [''clamav/databases/main.cvd'' \<mapsto> 500, ''clamav/databases/daily.cvd'' \<mapsto> 600],
      mtimes = [database_dir @ [''main.cvd''] \<mapsto> 200, database_dir @ [''daily.cvd''] \<mapsto> 200],
      dirs = home_dirs, trace = []\<rparr>"

text \<open>A configuration file as \<open>config_manager.py\<close> writes it.\<close>

definition saved_config :: config where
  "saved_config =
     [''bucket'' \<mapsto> JStr ''mirror-bucket'', ''region'' \<mapsto> JStr ''us-west-2'',
      ''prefix'' \<mapsto> JStr ''clamav/databases/'', ''sync_enabled'' \<mapsto> JBool True]"

text \<open>
  Three database files and the state file of a mirror, and a bucket that holds an older
  \<open>daily.cvd\<close>, a newer \<open>bytecode.cvd\<close> and no \<open>main.cvd\<close>.
\<close>

definition daily_local :: local_file where
  "daily_local = \<lparr>name = ''daily.cvd'', parent_name = ''database'', st_mtime = 200\<rparr>"

definition main_local :: local_file where
  "main_local = \<lparr>name = ''main.cvd'', parent_name = ''database'', st_mtime = 50\<rparr>"

definition bytecode_local :: local_file where
  "bytecode_local = \<lparr>name = ''bytecode.cvd'', parent_name = ''database'', st_mtime = 300\<rparr>"

definition state_local :: local_file where
  "state_local = \<lparr>name = ''state.json'', parent_name = ''.cvdupdate'', st_mtime = 400\<rparr>"

definition nightly :: world where
  "nightly =
     \<lparr>surr = quiet,
      objects = [''clamav/databases/daily.cvd'' \<mapsto> 100, ''clamav/databases/bytecode.cvd'' \<mapsto> 900],
      mtimes = Map.empty, dirs = home_dirs, trace = []\<rparr>"

text \<open>The same bucket when \<open>head_object\<close> is forbidden for every key.\<close>

definition forbidden_head :: world where
  "forbidden_head = nightly\<lparr>surr := quiet\<lparr>head_fault := (\<lambda>k. Some (ClientError ''403''))\<rparr>\<rparr>"

text \<open>The same bucket when writing \<open>daily.cvd\<close> is denied.\<close>

definition denied_upload :: world where
  "denied_upload =
     nightly\<lparr>surr := quiet\<lparr>upload_fault := (\<lambda>k. if k = ''clamav/databases/daily.cvd''
                                                  then Some (ClientError ''AccessDenied'')
                                                  else None)\<rparr>\<rparr>"

text \<open>A bucket whose listing is denied.\<close>

definition denied_listing :: world where
  "denied_listing =
     \<lparr>surr = quiet\<lparr>list_response := (\<lambda>p. Inl (ClientError ''AccessDenied'')),
                    head_bucket_response := Inr (Some ''us-west-2'')\<rparr>,
      objects = Map.empty, mtimes = Map.empty, dirs = home_dirs, trace = []\<rparr>"

text \<open>
  A bucket that holds \<open>main.cvd\<close> under two keys, one with a doubled slash, both newer
  than the local \<open>main.cvd\<close>.
\<close>

definition main_cvd_doubled :: s3_object where
  "main_cvd_doubled = \<lparr>Key = ''clamav/databases//main.cvd'', LastModified = 400\<rparr>"

definition doubled_slash :: world where
  "doubled_slash =
     \<lparr>surr = quiet\<lparr>list_response := (\<lambda>p. Inr (Some [main_cvd, main_cvd_doubled]))\<rparr>,
      objects = [''clamav/databases/main.cvd'' \<mapsto> 500, ''clamav/databases//main.cvd'' \<mapsto> 400],
      mtimes = [database_dir @ [''main.cvd''] \<mapsto> 200], dirs = home_dirs, trace = []\<rparr>"

text \<open>A mirror whose local copies are older than the two objects of the bucket.\<close>

definition stale_mirror :: world where
  "stale_mirror =
     \<lparr>surr = quiet\<lparr>list_response := (\<lambda>p. Inr (Some [main_cvd, daily_cvd]))\<rparr>,
      objects = [''clamav/databases/main.cvd'' \<mapsto> 500, ''clamav/databases/daily.cvd'' \<mapsto> 600],
      mtimes = [database_dir @ [''main.cvd''] \<mapsto> 200, database_dir @ [''daily.cvd''] \<mapsto> 200],
      dirs = home_dirs, trace = []\<rparr>"

text \<open>Command lines and a host with a usable configuration.\<close>

definition upload_args :: args where
  "upload_args =
     \<lparr>args_upload = True, args_download = False, args_test_connection = False,
      args_force = False, args_dry_run = False\<rparr>"

definition test_args :: args where
  "test_args =
     \<lparr>args_upload = False, args_download = False, args_test_connection = True,
      args_force = False, args_dry_run = False\<rparr>"

definition mirror_host :: host where
  "mirror_host =
     \<lparr>env_S3_BUCKET_NAME = None, env_S3_REGION = None, s3_config_file = Json saved_config,
      create_client_fails = False, database_directory = database_dir,
      local_files_found = [daily_local, main_local, bytecode_local]\<rparr>"

section \<open>Evaluation\<close>

lemmas run_defs = returned_def final_def events_since_def planned_uploads_def upload_announced_def
  planned_downloads_def download_announced_def skipped_uploads_def upload_skipped_def
  copies_def copy_called_def

lemmas example_defs = quiet_def nightly_def daily_local_def main_local_def bytecode_local_def
  state_local_def forbidden_head_def denied_listing_def main_cvd_def daily_cvd_def
  main_cvd_doubled_def doubled_slash_def stale_mirror_def fresh_mirror_def denied_first_def
  denied_upload_def database_dir_def home_dirs_def

lemmas upload_defs = upload_to_s3_def upload_one_def upload_try_def upload_selected_def
  head_object_def head_response_def upload_file_def s3_key_of_def emit_def logger_def Let_def

lemmas path_defs = Path_def joinpath_def parent_def startswith_def is_relative_to_def
  plain_def component_def

lemmas download_defs = download_from_s3_def list_objects_v2_def emit_def logger_def download_one_def
  relative_path_of_def local_path_of_def lstrip_def path_defs exists_def stat_mtime_def
  download_selected_def download_file_def mkdir_def entry_changed_def Let_def

section \<open>Download: a file absent locally, a failing transfer\<close>

text \<open>
  C2. The claim: an object of the listing is downloaded if and only if \<open>force\<close> is set,
  or the local file is absent, or the remote timestamp is strictly greater than the local
  one. The code starts \<open>should_download\<close> as \<open>force\<close> and recomputes it only
  when the local file exists, so without \<open>force\<close> an object whose local file is absent
  is never downloaded: with \<open>main.cvd\<close> in the bucket and an empty mirror the run
  returns \<open>True\<close>, reports 0 of 1, calls no \<open>download_file\<close> and leaves the file
  absent.
\<close>

theorem download_misses_absent_local_file:
  "returned (download_from_s3 fresh_mirror ''clamav/databases/'' database_dir False False) =
     Inr True \<and>
   trace (final (download_from_s3 fresh_mirror ''clamav/databases/'' database_dir False False)) =
     [Call (ListObjectsV2 ''clamav/databases/''), Call Mkdir_db_dir, Log (Info_downloaded 0 1)] \<and>
   mtimes (final (download_from_s3 fresh_mirror ''clamav/databases/'' database_dir False False))
     (local_path_of database_dir ''clamav/databases/'' (Key main_cvd)) = None"
  by (simp add: run_defs download_defs example_defs)

text \<open>
  C4. The claim: in the upload batch and in the download batch a failing transfer is
  logged and the remaining transfers are still attempted. The download loop runs inside
  the one \<open>try\<close> of \<open>download_from_s3\<close>: when \<open>download_file\<close> raises a client
  error for \<open>main.cvd\<close>, the function logs it and returns \<open>False\<close>; \<open>daily.cvd\<close>,
  next in the listing and newer than its local copy, is never attempted and no count is
  reported. The upload loop, with its handler around each file, goes on after the same
  failure: \<open>main.cvd\<close> is uploaded after \<open>daily.cvd\<close> failed, and 1 of 2 is reported.
\<close>

theorem download_stops_at_first_failure:
  "returned (download_from_s3 denied_first ''clamav/databases/'' database_dir False False) =
     Inr False \<and>
   trace (final (download_from_s3 denied_first ''clamav/databases/'' database_dir False False)) =
     [Call (ListObjectsV2 ''clamav/databases/''), Call Mkdir_db_dir,
      Log (Info_downloading ''clamav/databases/main.cvd'' (database_dir @ [''main.cvd''])),
      Call (Mkdir_parent (database_dir @ [''main.cvd''])),
      Call (DownloadFile ''clamav/databases/main.cvd'' (database_dir @ [''main.cvd''])),
      Log (Error_failed_to_download (ClientError ''AccessDenied''))] \<and>
   returned (upload_to_s3 denied_upload ''clamav/databases/'' [daily_local, main_local]
               False False) = Inr False \<and>
   trace (final (upload_to_s3 denied_upload ''clamav/databases/'' [daily_local, main_local]
                   False False)) =
     [Call (HeadObject ''clamav/databases/daily.cvd''),
      Log (Info_uploading daily_local ''clamav/databases/daily.cvd''),
      Call (UploadFile daily_local ''clamav/databases/daily.cvd''),
      Log (Error_failed_to_upload daily_local (ClientError ''AccessDenied'')),
      Call (HeadObject ''clamav/databases/main.cvd''),
      Log (Info_uploading main_local ''clamav/databases/main.cvd''),
      Call (UploadFile main_local ''clamav/databases/main.cvd''),
      Log (Info_uploaded 1 2)]"
  by (simp add: run_defs download_defs upload_defs example_defs)

section \<open>Configuration\<close>

lemma takeWhile_eq_replicate:
  "takeWhile (\<lambda>c. c = a) xs = replicate (length (takeWhile (\<lambda>c. c = a) xs)) a"
  by (induction xs) auto

lemma rstrip_decompose: "\<exists>n. s = rstrip s @ replicate n (CHR ''/'')"
proof -
  let ?P = "\<lambda>c. c = CHR ''/''"
  have "rev s = takeWhile ?P (rev s) @ dropWhile ?P (rev s)" by simp
  then have "s = rev (dropWhile ?P (rev s)) @ rev (takeWhile ?P (rev s))"
    by (metis rev_append rev_rev_ident)
  moreover have "rev (takeWhile ?P (rev s)) = replicate (length (takeWhile ?P (rev s))) (CHR ''/'')"
    by (metis takeWhile_eq_replicate rev_replicate)
  ultimately show ?thesis unfolding rstrip_def by metis
qed

lemma rstrip_last: "rstrip s = [] \<or> last (rstrip s) \<noteq> CHR ''/''"
  using hd_dropWhile[of "\<lambda>c. c = CHR ''/''" "rev s"]
  unfolding rstrip_def by (auto simp: last_rev)

text \<open>
  C10. \<open>set_s3_prefix\<close> saves, under the key \<open>prefix\<close>, the empty string when the
  input is empty and otherwise the input with its trailing slashes stripped and one slash
  appended; so the saved prefix is empty or ends with exactly one slash.
\<close>

theorem set_s3_prefix_one_trailing_slash:
  "\<exists>c p. set_s3_prefix prefix cfile = Json c \<and> c ''prefix'' = Some (JStr p) \<and>
     p = (if prefix = [] then [] else rstrip prefix @ ''/'') \<and>
     (\<exists>n. prefix = rstrip prefix @ replicate n (CHR ''/'')) \<and>
     (rstrip prefix = [] \<or> last (rstrip prefix) \<noteq> CHR ''/'') \<and>
     (p = [] \<or> (\<exists>q. p = q @ ''/'' \<and> (q = [] \<or> last q \<noteq> CHR ''/'')))"
  using rstrip_decompose[of prefix] rstrip_last[of prefix]
  by (auto simp: set_s3_prefix_def)

theorem set_s3_prefix_one_trailing_slash_witness:
  "set_s3_prefix ''clamav/databases//'' No_file = Json [''prefix'' \<mapsto> JStr ''clamav/databases/'']"
  using set_s3_prefix_one_trailing_slash[of "''clamav/databases//''" No_file]
  by (simp add: set_s3_prefix_def manager_load_s3_config_def rstrip_def)

text \<open>
  C8, as amended. The bucket variable, when set and not empty, takes precedence over the
  file: the load returns, the loaded bucket is the variable's value, and the loaded region
  is then the value of the region variable when that is set and not empty, and
  \<open>us-east-1\<close> otherwise, whatever the file holds. When the bucket variable is unset or
  empty the region variable is not consulted: the load gives what it gives with the
  region variable unset.
\<close>

theorem load_s3_config_bucket_gate:
  "(\<forall>b. env_bucket = Some b \<and> b \<noteq> [] \<longrightarrow>
      (\<exists>c. load_s3_config env_bucket env_region cfile = Inr c \<and>
           c ''bucket'' = Some (JStr b) \<and>
           c ''region'' =
             Some (JStr (case env_region of
                           None \<Rightarrow> ''us-east-1''
                         | Some r \<Rightarrow> if r \<noteq> [] then r else ''us-east-1'')))) \<and>
   (env_bucket = None \<or> env_bucket = Some [] \<longrightarrow>
      load_s3_config env_bucket env_region cfile = load_s3_config env_bucket None cfile)"
  by (cases env_region) (auto simp: load_s3_config_def)

theorem load_s3_config_bucket_gate_witness:
  "(\<exists>c. load_s3_config (Some ''other-bucket'') (Some ''eu-west-1'') (Json saved_config) = Inr c \<and>
        c ''bucket'' = Some (JStr ''other-bucket'') \<and> c ''region'' = Some (JStr ''eu-west-1'')) \<and>
   load_s3_config None (Some ''eu-west-1'') (Json saved_config) =
     load_s3_config None None (Json saved_config)"
  using load_s3_config_bucket_gate[of "Some ''other-bucket''" "Some ''eu-west-1''" "Json saved_config"]
    load_s3_config_bucket_gate[of None "Some ''eu-west-1''" "Json saved_config"]
  by simp

text \<open>
  The claim as stated fails: with only the region variable set, the load returns the
  file's dictionary, whose region is not the variable's.
\<close>

theorem region_variable_alone_is_ignored:
  "load_s3_config None (Some ''eu-west-1'') (Json saved_config) = Inr saved_config \<and>
   saved_config ''region'' = Some (JStr ''us-west-2'')"
  by (simp add: load_s3_config_def saved_config_def)

text \<open>
  What the file alone gives: its dictionary; the defaults when it is absent or not valid
  JSON; the exception of the load in every other case.
\<close>

lemma load_s3_config_from_file:
  "load_s3_config None None No_file = Inr default_config"
  "load_s3_config None None (Json c) = Inr c"
  "load_s3_config None None (Load_raises ''JSONDecodeError'') = Inr default_config"
  "load_s3_config None None (Load_raises ''PermissionError'') = Inl (OtherError ''PermissionError'')"
  "load_s3_config None None (Load_raises ''UnicodeDecodeError'') =
     Inl (OtherError ''UnicodeDecodeError'')"
  by (simp_all add: load_s3_config_def)

section \<open>Reading traces\<close>


lemma planned_uploads_append [simp]:
  "planned_uploads (xs @ ys) = planned_uploads xs @ planned_uploads ys"
  by (simp add: planned_uploads_def)

lemma skipped_uploads_append [simp]:
  "skipped_uploads (xs @ ys) = skipped_uploads xs @ skipped_uploads ys"
  by (simp add: skipped_uploads_def)

lemma copies_append [simp]: "copies (xs @ ys) = copies xs @ copies ys"
  by (simp add: copies_def)

lemma planned_downloads_append [simp]:
  "planned_downloads (xs @ ys) = planned_downloads xs @ planned_downloads ys"
  by (simp add: planned_downloads_def)

lemma events_since_append [simp]: "trace w' = trace w @ es \<Longrightarrow> events_since w w' = es"
  by (simp add: events_since_def)

lemma head_response_frame:
  "surr w' = surr w \<Longrightarrow> objects w' k = objects w k \<Longrightarrow> head_response w' k = head_response w k"
  by (simp add: head_response_def split: option.split)

lemmas read_unfold = planned_uploads_def upload_announced_def skipped_uploads_def upload_skipped_def
  copies_def copy_called_def planned_downloads_def download_announced_def

section \<open>Upload: one iteration\<close>

text \<open>The outcomes of one iteration of the upload loop.\<close>

lemma upload_selected_dry:
  "upload_selected True f k n w = Inr (n + 1, logger (Info_would_upload f k) w)"
  by (simp add: upload_selected_def)

lemma upload_selected_real:
  "upload_selected False f k n w =
     (let w2 = emit (Call (UploadFile f k)) (logger (Info_uploading f k) w)
      in case upload_fault (surr w) k of
           None \<Rightarrow> Inr (n + 1, w2\<lparr>objects := (objects w)(k \<mapsto> upload_stamp (surr w) k)\<rparr>)
         | Some e \<Rightarrow> Inl (e, w2))"
  by (simp add: upload_selected_def upload_file_def emit_def logger_def Let_def split: option.split)

lemma upload_try_forced: "upload_try True dry f k n w = upload_selected dry f k n w"
  by (simp add: upload_try_def)

lemma upload_try_absent:
  "head_response w k = Inl (ClientError ''404'') \<Longrightarrow>
   upload_try False dry f k n w = upload_selected dry f k n (emit (Call (HeadObject k)) w)"
  by (simp add: upload_try_def head_object_def)

lemma upload_try_newer:
  "head_response w k = Inr t \<Longrightarrow> t < st_mtime f \<Longrightarrow>
   upload_try False dry f k n w = upload_selected dry f k n (emit (Call (HeadObject k)) w)"
  by (simp add: upload_try_def head_object_def)

lemma upload_try_up_to_date:
  "head_response w k = Inr t \<Longrightarrow> st_mtime f \<le> t \<Longrightarrow>
   upload_try False dry f k n w =
     Inr (n, logger (Debug_skipping_upload f) (emit (Call (HeadObject k)) w))"
  by (simp add: upload_try_def head_object_def)

lemma upload_try_head_error:
  "head_response w k = Inl e \<Longrightarrow> e \<noteq> ClientError ''404'' \<Longrightarrow>
   upload_try False dry f k n w = Inl (e, emit (Call (HeadObject k)) w)"
  by (cases e) (simp_all add: upload_try_def head_object_def)

text \<open>The five ways an iteration can go.\<close>

lemma upload_one_cases:
  obtains
    (would) w1 where "dry"
      "force \<or> head_response w (s3_key_of p f) = Inl (ClientError ''404'') \<or>
         (\<exists>t. head_response w (s3_key_of p f) = Inr t \<and> t < st_mtime f)"
      "w1 = (if force then w else emit (Call (HeadObject (s3_key_of p f))) w)"
      "upload_one p force dry f n w =
         Inr (n + 1, logger (Info_would_upload f (s3_key_of p f)) w1)"
  | (copied) w1 where "\<not> dry"
      "force \<or> head_response w (s3_key_of p f) = Inl (ClientError ''404'') \<or>
         (\<exists>t. head_response w (s3_key_of p f) = Inr t \<and> t < st_mtime f)"
      "w1 = (if force then w else emit (Call (HeadObject (s3_key_of p f))) w)"
      "upload_fault (surr w) (s3_key_of p f) = None"
      "upload_one p force dry f n w =
         Inr (n + 1, (emit (Call (UploadFile f (s3_key_of p f)))
                        (logger (Info_uploading f (s3_key_of p f)) w1))
                     \<lparr>objects := (objects w)(s3_key_of p f \<mapsto> upload_stamp (surr w) (s3_key_of p f))\<rparr>)"
  | (copy_failed) w1 e where "\<not> dry"
      "force \<or> head_response w (s3_key_of p f) = Inl (ClientError ''404'') \<or>
         (\<exists>t. head_response w (s3_key_of p f) = Inr t \<and> t < st_mtime f)"
      "w1 = (if force then w else emit (Call (HeadObject (s3_key_of p f))) w)"
      "upload_fault (surr w) (s3_key_of p f) = Some e"
      "upload_one p force dry f n w =
         (let w2 = emit (Call (UploadFile f (s3_key_of p f)))
                        (logger (Info_uploading f (s3_key_of p f)) w1)
          in case e of ClientError c \<Rightarrow> Inr (n, logger (Error_failed_to_upload f e) w2)
                     | OtherError x \<Rightarrow> Inl (e, w2))"
  | (skipped) t where "\<not> force" "head_response w (s3_key_of p f) = Inr t" "st_mtime f \<le> t"
      "upload_one p force dry f n w =
         Inr (n, logger (Debug_skipping_upload f) (emit (Call (HeadObject (s3_key_of p f))) w))"
  | (head_failed) e where "\<not> force" "head_response w (s3_key_of p f) = Inl e"
      "e \<noteq> ClientError ''404''"
      "upload_one p force dry f n w =
         (let w1 = emit (Call (HeadObject (s3_key_of p f))) w
          in case e of ClientError c \<Rightarrow> Inr (n, logger (Error_failed_to_upload f e) w1)
                     | OtherError x \<Rightarrow> Inl (e, w1))"
proof -
  let ?k = "s3_key_of p f"
  show thesis
  proof (cases force)
    case True
    show thesis
    proof (cases dry)
      case True
      with \<open>force\<close> would[of w] show thesis
        by (simp add: upload_one_def Let_def upload_try_forced upload_selected_dry)
    next
      case False
      show thesis
      proof (cases "upload_fault (surr w) ?k")
        case None
        with False \<open>force\<close> copied[of w] show thesis
          by (simp add: upload_one_def Let_def upload_try_forced upload_selected_real)
      next
        case (Some e)
        with False \<open>force\<close> copy_failed[of w e] show thesis
          by (cases e) (simp_all add: upload_one_def Let_def upload_try_forced upload_selected_real)
      qed
    qed
  next
    case nf: False
    let ?w1 = "emit (Call (HeadObject ?k)) w"
    have s1: "surr ?w1 = surr w" "objects ?w1 = objects w" by (simp_all add: emit_def)
    show thesis
    proof (cases "head_response w ?k")
      case (Inr t)
      show thesis
      proof (cases "t < st_mtime f")
        case newer: True
        show thesis
        proof (cases dry)
          case True
          with nf Inr newer would[of ?w1] show thesis
            by (simp add: upload_one_def Let_def upload_try_newer upload_selected_dry)
        next
          case False
          show thesis
          proof (cases "upload_fault (surr w) ?k")
            case None
            with False nf Inr newer copied[of ?w1] show thesis
              by (simp add: upload_one_def Let_def upload_try_newer upload_selected_real s1)
          next
            case (Some e)
            with False nf Inr newer copy_failed[of ?w1 e] show thesis
              by (cases e) (simp_all add: upload_one_def Let_def upload_try_newer upload_selected_real s1)
          qed
        qed
      next
        case False
        with nf Inr skipped[of t] show thesis
          by (simp add: upload_one_def Let_def upload_try_up_to_date)
      qed
    next
      case (Inl e)
      show thesis
      proof (cases "e = ClientError ''404''")
        case absent: True
        show thesis
        proof (cases dry)
          case True
          with nf Inl absent would[of ?w1] show thesis
            by (simp add: upload_one_def Let_def upload_try_absent upload_selected_dry)
        next
          case False
          show thesis
          proof (cases "upload_fault (surr w) ?k")
            case None
            with False nf Inl absent copied[of ?w1] show thesis
              by (simp add: upload_one_def Let_def upload_try_absent upload_selected_real s1)
          next
            case (Some e')
            with False nf Inl absent copy_failed[of ?w1 e'] show thesis
              by (cases e') (simp_all add: upload_one_def Let_def upload_try_absent upload_selected_real s1)
          qed
        qed
      next
        case False
        with nf Inl head_failed[of e] show thesis
          by (cases e) (simp_all add: upload_one_def Let_def upload_try_head_error)
      qed
    qed
  qed
qed


lemmas step_unfold = final_def emit_def logger_def Let_def read_unfold

lemma upload_one_final:
  "surr (final (upload_one p force dry f n w)) = surr w \<and>
   mtimes (final (upload_one p force dry f n w)) = mtimes w \<and>
   (\<forall>k. k \<noteq> s3_key_of p f \<longrightarrow> objects (final (upload_one p force dry f n w)) k = objects w k) \<and>
   (objects (final (upload_one p force dry f n w)) (s3_key_of p f) = objects w (s3_key_of p f) \<or>
    objects (final (upload_one p force dry f n w)) (s3_key_of p f) =
      Some (upload_stamp (surr w) (s3_key_of p f))) \<and>
   (dry \<longrightarrow> objects (final (upload_one p force dry f n w)) = objects w)"
  by (rule upload_one_cases[where p = p and force = force and dry = dry and f = f and n = n and w = w])
     (auto simp: step_unfold split: exn.splits)

lemma upload_one_events:
  "\<exists>es. trace (final (upload_one p force dry f n w)) = trace w @ es \<and>
     planned_uploads es =
       (if force \<or> head_response w (s3_key_of p f) = Inl (ClientError ''404'') \<or>
           (\<exists>t. head_response w (s3_key_of p f) = Inr t \<and> t < st_mtime f)
        then [(f, s3_key_of p f)] else []) \<and>
     skipped_uploads es =
       (if \<not> force \<and> (\<exists>t. head_response w (s3_key_of p f) = Inr t \<and> st_mtime f \<le> t)
        then [f] else []) \<and>
     (dry \<longrightarrow> copies es = [])"
  by (rule upload_one_cases[where p = p and force = force and dry = dry and f = f and n = n and w = w])
     (auto simp: step_unfold split: exn.splits)

lemma upload_one_count:
  assumes "upload_one p force dry f n w = Inr (n', w')"
  shows "n' \<le> n + 1 \<and> n \<le> n' \<and>
         (n' = n + 1 \<longrightarrow> (force \<or> head_response w (s3_key_of p f) = Inl (ClientError ''404'') \<or>
           (\<exists>t. head_response w (s3_key_of p f) = Inr t \<and> t < st_mtime f))) \<and>
         (\<not> force \<longrightarrow> (\<forall>x. head_response w (s3_key_of p f) \<noteq> Inl (OtherError x)))"
  by (rule upload_one_cases[where p = p and force = force and dry = dry and f = f and n = n and w = w])
     (use assms in \<open>auto simp: step_unfold split: exn.splits\<close>)


section \<open>Upload: the loop\<close>

text \<open>The whole loop, whatever its outcome.\<close>

lemma upload_loop_final:
  "surr (final (upload_loop p force dry fs n w)) = surr w \<and>
   mtimes (final (upload_loop p force dry fs n w)) = mtimes w \<and>
   (dry \<longrightarrow> objects (final (upload_loop p force dry fs n w)) = objects w) \<and>
   (\<exists>es. trace (final (upload_loop p force dry fs n w)) = trace w @ es \<and> (dry \<longrightarrow> copies es = []))"
proof (induction fs arbitrary: n w)
  case Nil
  show ?case by (simp add: final_def copies_def)
next
  case (Cons f fs)
  let ?r = "upload_one p force dry f n w"
  from upload_one_events[of p force dry f n w] obtain es1
    where es1: "trace (final ?r) = trace w @ es1" "dry \<longrightarrow> copies es1 = []" by blast
  from upload_one_final[of p force dry f n w]
  have f1: "surr (final ?r) = surr w" and f2: "mtimes (final ?r) = mtimes w"
    and f3: "dry \<longrightarrow> objects (final ?r) = objects w" by simp_all
  show ?case
  proof (cases ?r)
    case (Inl ew)
    then have eq: "upload_loop p force dry (f # fs) n w = ?r" by simp
    show ?thesis unfolding eq using f1 f2 f3 es1 by simp
  next
    case (Inr nw)
    obtain n1 w1 where nw: "nw = (n1, w1)" by (cases nw)
    with Inr have r: "?r = Inr (n1, w1)" by simp
    then have w1: "final ?r = w1" by (simp add: final_def)
    from r have loop: "upload_loop p force dry (f # fs) n w = upload_loop p force dry fs n1 w1"
      by simp
    from Cons.IH[of n1 w1] obtain es2 where
      ih: "surr (final (upload_loop p force dry fs n1 w1)) = surr w1"
          "mtimes (final (upload_loop p force dry fs n1 w1)) = mtimes w1"
          "dry \<longrightarrow> objects (final (upload_loop p force dry fs n1 w1)) = objects w1"
          "trace (final (upload_loop p force dry fs n1 w1)) = trace w1 @ es2"
          "dry \<longrightarrow> copies es2 = []" by blast
    have t: "trace (final (upload_loop p force dry fs n1 w1)) = trace w @ (es1 @ es2)"
      using ih(4) es1(1) w1 by simp
    have c: "dry \<longrightarrow> copies (es1 @ es2) = []" using es1(2) ih(5) by simp
    have "\<exists>es. trace (final (upload_loop p force dry fs n1 w1)) = trace w @ es \<and>
            (dry \<longrightarrow> copies es = [])"
      using t c by (intro exI[of _ "es1 @ es2"] conjI)
    moreover have "surr (final (upload_loop p force dry fs n1 w1)) = surr w"
      using ih(1) f1 w1 by simp
    moreover have "mtimes (final (upload_loop p force dry fs n1 w1)) = mtimes w"
      using ih(2) f2 w1 by simp
    moreover have "dry \<longrightarrow> objects (final (upload_loop p force dry fs n1 w1)) = objects w"
      using ih(3) f3 w1 by auto
    ultimately show ?thesis unfolding loop by (intro conjI)
  qed
qed

text \<open>A loop that returns: its plan, its skipped files and its count.\<close>

lemma upload_loop_count:
  assumes "upload_loop p force dry fs n w = Inr (n', w')"
  shows "\<exists>es. trace w' = trace w @ es \<and> n \<le> n' \<and>
           n' + length (skipped_uploads es) \<le> n + length fs"
  using assms
proof (induction fs arbitrary: n w)
  case Nil
  then show ?case by (simp add: skipped_uploads_def)
next
  case (Cons f fs)
  let ?r = "upload_one p force dry f n w"
  from Cons.prems obtain n1 w1 where r: "?r = Inr (n1, w1)"
    and loop: "upload_loop p force dry fs n1 w1 = Inr (n', w')"
    by (auto split: sum.splits)
  from r have w1: "final ?r = w1" by (simp add: final_def)
  from upload_one_events[of p force dry f n w] w1 obtain es1
    where es1: "trace w1 = trace w @ es1"
      "skipped_uploads es1 =
         (if \<not> force \<and> (\<exists>t. head_response w (s3_key_of p f) = Inr t \<and> st_mtime f \<le> t)
          then [f] else [])" by auto
  note c = upload_one_count[OF r]
  from Cons.IH[OF loop] obtain es2 where
    es2: "trace w' = trace w1 @ es2" "n1 \<le> n'"
      "n' + length (skipped_uploads es2) \<le> n1 + length fs" by blast
  have step: "n1 + length (skipped_uploads es1) \<le> n + 1"
  proof (cases "\<not> force \<and> (\<exists>t. head_response w (s3_key_of p f) = Inr t \<and> st_mtime f \<le> t)")
    case True
    then have "n1 \<noteq> n + 1" using c by auto
    with c True es1(2) show ?thesis by auto
  next
    case False
    with c es1(2) show ?thesis by auto
  qed
  have "trace w' = trace w @ (es1 @ es2)" using es1(1) es2(1) by simp
  moreover have "n \<le> n'" using c es2(2) by linarith
  moreover have "n' + length (skipped_uploads (es1 @ es2)) \<le> n + length (f # fs)"
    using step es2(3) by simp
  ultimately show ?case by blast
qed

lemma upload_one_eventsE:
  obtains es where
    "trace (final (upload_one p force dry f n w)) = trace w @ es"
    "planned_uploads es =
       (if force \<or> head_response w (s3_key_of p f) = Inl (ClientError ''404'') \<or>
           (\<exists>t. head_response w (s3_key_of p f) = Inr t \<and> t < st_mtime f)
        then [(f, s3_key_of p f)] else [])"
    "skipped_uploads es =
       (if \<not> force \<and> (\<exists>t. head_response w (s3_key_of p f) = Inr t \<and> st_mtime f \<le> t)
        then [f] else [])"
    "dry \<longrightarrow> copies es = []"
proof -
  from upload_one_events[of p force dry f n w] obtain es where
    e: "trace (final (upload_one p force dry f n w)) = trace w @ es \<and>
     planned_uploads es =
       (if force \<or> head_response w (s3_key_of p f) = Inl (ClientError ''404'') \<or>
           (\<exists>t. head_response w (s3_key_of p f) = Inr t \<and> t < st_mtime f)
        then [(f, s3_key_of p f)] else []) \<and>
     skipped_uploads es =
       (if \<not> force \<and> (\<exists>t. head_response w (s3_key_of p f) = Inr t \<and> st_mtime f \<le> t)
        then [f] else []) \<and>
     (dry \<longrightarrow> copies es = [])" by (rule exE)
  show thesis
    by (rule that[OF conjunct1[OF e] conjunct1[OF conjunct2[OF e]]
          conjunct1[OF conjunct2[OF conjunct2[OF e]]] conjunct2[OF conjunct2[OF conjunct2[OF e]]]])
qed

lemma upload_loop_plan:
  assumes "upload_loop p force dry fs n w = Inr (n', w')"
      and "dry \<or> distinct (map (s3_key_of p) fs)"
  shows "\<exists>es. trace w' = trace w @ es \<and>
           planned_uploads es =
             map (\<lambda>f. (f, s3_key_of p f))
               (filter (\<lambda>f. force \<or> head_response w (s3_key_of p f) = Inl (ClientError ''404'') \<or>
                         (\<exists>t. head_response w (s3_key_of p f) = Inr t \<and> t < st_mtime f)) fs) \<and>
           skipped_uploads es =
             filter (\<lambda>f. \<not> force \<and>
                         (\<exists>t. head_response w (s3_key_of p f) = Inr t \<and> st_mtime f \<le> t)) fs \<and>
           (\<not> force \<longrightarrow> (\<forall>f\<in>set fs. \<forall>x. head_response w (s3_key_of p f) \<noteq> Inl (OtherError x)))"
  using assms
proof (induction fs arbitrary: n w)
  case Nil
  then show ?case by (simp add: planned_uploads_def skipped_uploads_def)
next
  case (Cons f fs)
  let ?r = "upload_one p force dry f n w"
  from Cons.prems(1) obtain n1 w1 where r: "?r = Inr (n1, w1)"
    and loop: "upload_loop p force dry fs n1 w1 = Inr (n', w')"
    by (auto split: sum.splits)
  from r have w1: "final ?r = w1" by (simp add: final_def)
  obtain es1 where es1': "trace (final ?r) = trace w @ es1"
      and es1_plan: "planned_uploads es1 =
         (if force \<or> head_response w (s3_key_of p f) = Inl (ClientError ''404'') \<or>
             (\<exists>t. head_response w (s3_key_of p f) = Inr t \<and> t < st_mtime f)
          then [(f, s3_key_of p f)] else [])"
      and es1_skip: "skipped_uploads es1 =
         (if \<not> force \<and> (\<exists>t. head_response w (s3_key_of p f) = Inr t \<and> st_mtime f \<le> t)
          then [f] else [])"
    by (rule upload_one_eventsE[of p force dry f n w])
  have es1: "trace w1 = trace w @ es1" using es1' w1 by simp
  note fr = upload_one_final[of p force dry f n w, unfolded w1]
  note c = upload_one_count[OF r]
  have same: "head_response w1 (s3_key_of p g) = head_response w (s3_key_of p g)"
    if "g \<in> set fs" for g
  proof -
    have "objects w1 (s3_key_of p g) = objects w (s3_key_of p g)"
    proof (cases dry)
      case True
      with fr show ?thesis by simp
    next
      case False
      with Cons.prems(2) have "s3_key_of p f \<notin> s3_key_of p ` set fs" by simp
      moreover from that have "s3_key_of p g \<in> s3_key_of p ` set fs" by (rule imageI)
      ultimately have "s3_key_of p g \<noteq> s3_key_of p f"
        by (cases "s3_key_of p g = s3_key_of p f") simp_all
      with fr show ?thesis by simp
    qed
    moreover from fr have "surr w1 = surr w" by simp
    ultimately show ?thesis by (intro head_response_frame)
  qed
  from Cons.prems(2) have d: "dry \<or> distinct (map (s3_key_of p) fs)" by auto
  from Cons.IH[OF loop d] obtain es2 where
    ih: "trace w' = trace w1 @ es2 \<and>
      planned_uploads es2 =
         map (\<lambda>f. (f, s3_key_of p f))
           (filter (\<lambda>f. force \<or> head_response w1 (s3_key_of p f) = Inl (ClientError ''404'') \<or>
                     (\<exists>t. head_response w1 (s3_key_of p f) = Inr t \<and> t < st_mtime f)) fs) \<and>
      skipped_uploads es2 =
         filter (\<lambda>f. \<not> force \<and>
                     (\<exists>t. head_response w1 (s3_key_of p f) = Inr t \<and> st_mtime f \<le> t)) fs \<and>
      (\<not> force \<longrightarrow> (\<forall>f\<in>set fs. \<forall>x. head_response w1 (s3_key_of p f) \<noteq> Inl (OtherError x)))"
    by (rule exE)
  note es2 = conjunct1[OF ih] conjunct1[OF conjunct2[OF ih]]
    conjunct1[OF conjunct2[OF conjunct2[OF ih]]] conjunct2[OF conjunct2[OF conjunct2[OF ih]]]
  have p2: "planned_uploads es2 =
         map (\<lambda>f. (f, s3_key_of p f))
           (filter (\<lambda>f. force \<or> head_response w (s3_key_of p f) = Inl (ClientError ''404'') \<or>
                     (\<exists>t. head_response w (s3_key_of p f) = Inr t \<and> t < st_mtime f)) fs)"
    unfolding es2(2) by (rule arg_cong[where f = "map (\<lambda>f. (f, s3_key_of p f))"], rule filter_cong)
      (simp_all add: same)
  have s2: "skipped_uploads es2 =
         filter (\<lambda>f. \<not> force \<and>
                     (\<exists>t. head_response w (s3_key_of p f) = Inr t \<and> st_mtime f \<le> t)) fs"
    unfolding es2(3) by (rule filter_cong) (simp_all add: same)
  have h2: "\<not> force \<longrightarrow> (\<forall>f\<in>set fs. \<forall>x. head_response w (s3_key_of p f) \<noteq> Inl (OtherError x))"
    using es2(4) same by simp
  have "trace w' = trace w @ (es1 @ es2)" using es1 es2(1) by simp
  moreover have "planned_uploads (es1 @ es2) =
         map (\<lambda>f. (f, s3_key_of p f))
           (filter (\<lambda>f. force \<or> head_response w (s3_key_of p f) = Inl (ClientError ''404'') \<or>
                     (\<exists>t. head_response w (s3_key_of p f) = Inr t \<and> t < st_mtime f)) (f # fs))"
    using es1_plan p2 by simp
  moreover have "skipped_uploads (es1 @ es2) =
         filter (\<lambda>f. \<not> force \<and>
                     (\<exists>t. head_response w (s3_key_of p f) = Inr t \<and> st_mtime f \<le> t)) (f # fs)"
    using es1_skip s2 by simp
  moreover have "\<not> force \<longrightarrow>
      (\<forall>f\<in>set (f # fs). \<forall>x. head_response w (s3_key_of p f) \<noteq> Inl (OtherError x))"
    using h2 c by simp
  ultimately show ?case by (intro exI[of _ "es1 @ es2"] conjI)
qed


lemma upload_to_s3_cases:
  obtains
    (empty) "fs = []" "upload_to_s3 w p fs force dry = Inr (True, logger Warning_no_local_files w)"
  | (raised) e w1 where "fs \<noteq> []" "upload_loop p force dry fs 0 w = Inl (e, w1)"
      "upload_to_s3 w p fs force dry = Inl (e, w1)"
  | (completed) n w1 where "fs \<noteq> []" "upload_loop p force dry fs 0 w = Inr (n, w1)"
      "upload_to_s3 w p fs force dry =
         Inr (n = length fs,
              logger (if \<not> dry then Info_uploaded n (length fs)
                      else Info_would_upload_total n (length fs)) w1)"
proof (cases "fs = []")
  case True
  with empty show thesis by (simp add: upload_to_s3_def)
next
  case False
  show thesis
  proof (cases "upload_loop p force dry fs 0 w")
    case (Inl ew)
    obtain e w1 where "ew = (e, w1)" by (cases ew)
    with Inl False raised[of e w1] show thesis by (simp add: upload_to_s3_def)
  next
    case (Inr nw)
    obtain n w1 where "nw = (n, w1)" by (cases nw)
    with Inr False completed[of n w1] show thesis by (simp add: upload_to_s3_def Let_def)
  qed
qed

lemma upload_loop_planE:
  assumes "upload_loop p force dry fs n w = Inr (n', w')"
      and "dry \<or> distinct (map (s3_key_of p) fs)"
  obtains es where "trace w' = trace w @ es"
    "planned_uploads es =
             map (\<lambda>f. (f, s3_key_of p f))
               (filter (\<lambda>f. force \<or> head_response w (s3_key_of p f) = Inl (ClientError ''404'') \<or>
                         (\<exists>t. head_response w (s3_key_of p f) = Inr t \<and> t < st_mtime f)) fs)"
    "skipped_uploads es =
             filter (\<lambda>f. \<not> force \<and>
                         (\<exists>t. head_response w (s3_key_of p f) = Inr t \<and> st_mtime f \<le> t)) fs"
    "\<not> force \<longrightarrow> (\<forall>f\<in>set fs. \<forall>x. head_response w (s3_key_of p f) \<noteq> Inl (OtherError x))"
proof -
  from upload_loop_plan[OF assms] obtain es where
    e: "trace w' = trace w @ es \<and>
           planned_uploads es =
             map (\<lambda>f. (f, s3_key_of p f))
               (filter (\<lambda>f. force \<or> head_response w (s3_key_of p f) = Inl (ClientError ''404'') \<or>
                         (\<exists>t. head_response w (s3_key_of p f) = Inr t \<and> t < st_mtime f)) fs) \<and>
           skipped_uploads es =
             filter (\<lambda>f. \<not> force \<and>
                         (\<exists>t. head_response w (s3_key_of p f) = Inr t \<and> st_mtime f \<le> t)) fs \<and>
           (\<not> force \<longrightarrow> (\<forall>f\<in>set fs. \<forall>x. head_response w (s3_key_of p f) \<noteq> Inl (OtherError x)))"
    by (rule exE)
  show thesis
    by (rule that[OF conjunct1[OF e] conjunct1[OF conjunct2[OF e]]
          conjunct1[OF conjunct2[OF conjunct2[OF e]]] conjunct2[OF conjunct2[OF conjunct2[OF e]]]])
qed

lemma upload_loop_countE:
  assumes "upload_loop p force dry fs n w = Inr (n', w')"
  obtains es where "trace w' = trace w @ es" "n \<le> n'"
    "n' + length (skipped_uploads es) \<le> n + length fs"
proof -
  from upload_loop_count[OF assms] obtain es where
    e: "trace w' = trace w @ es \<and> n \<le> n' \<and> n' + length (skipped_uploads es) \<le> n + length fs"
    by (rule exE)
  show thesis
    by (rule that[OF conjunct1[OF e] conjunct1[OF conjunct2[OF e]] conjunct2[OF conjunct2[OF e]]])
qed

lemma planned_uploads_summary [simp]:
  "planned_uploads [Log (Info_uploaded a b)] = []"
  "planned_uploads [Log (Info_would_upload_total a b)] = []"
  "planned_uploads [Log Warning_no_local_files] = []"
  "skipped_uploads [Log (Info_uploaded a b)] = []"
  "skipped_uploads [Log (Info_would_upload_total a b)] = []"
  "skipped_uploads [Log Warning_no_local_files] = []"
  "copies [Log l] = []"
  by (simp_all add: read_unfold)

lemma upload_to_s3_plan:
  assumes run: "returned (upload_to_s3 w prefix local_files force dry_run) = Inr success"
      and sep: "dry_run \<or> distinct (map (s3_key_of prefix) local_files)"
  shows "planned_uploads (events_since w (final (upload_to_s3 w prefix local_files force dry_run))) =
           map (\<lambda>f. (f, s3_key_of prefix f))
             (filter (\<lambda>f. force \<or>
                          head_response w (s3_key_of prefix f) = Inl (ClientError ''404'') \<or>
                          (\<exists>t. head_response w (s3_key_of prefix f) = Inr t \<and> t < st_mtime f))
                local_files) \<and>
         skipped_uploads (events_since w (final (upload_to_s3 w prefix local_files force dry_run))) =
           filter (\<lambda>f. \<not> force \<and>
                       (\<exists>t. head_response w (s3_key_of prefix f) = Inr t \<and> st_mtime f \<le> t))
             local_files \<and>
         (\<not> force \<longrightarrow>
            (\<forall>f\<in>set local_files. \<forall>x. head_response w (s3_key_of prefix f) \<noteq> Inl (OtherError x)))"
proof (rule upload_to_s3_cases[of local_files w prefix force dry_run])
  assume e: "local_files = []"
    and res: "upload_to_s3 w prefix local_files force dry_run =
                Inr (True, logger Warning_no_local_files w)"
  show ?thesis unfolding res using e
    by (simp add: final_def logger_def emit_def events_since_def)
next
  fix e w1
  assume "upload_to_s3 w prefix local_files force dry_run = Inl (e, w1)"
  with run show ?thesis by (simp add: returned_def)
next
  fix n w1
  assume loop: "upload_loop prefix force dry_run local_files 0 w = Inr (n, w1)"
    and res: "upload_to_s3 w prefix local_files force dry_run =
       Inr (n = length local_files,
            logger (if \<not> dry_run then Info_uploaded n (length local_files)
                    else Info_would_upload_total n (length local_files)) w1)"
  from loop sep obtain es where es: "trace w1 = trace w @ es"
    "planned_uploads es =
       map (\<lambda>f. (f, s3_key_of prefix f))
         (filter (\<lambda>f. force \<or>
                      head_response w (s3_key_of prefix f) = Inl (ClientError ''404'') \<or>
                      (\<exists>t. head_response w (s3_key_of prefix f) = Inr t \<and> t < st_mtime f))
            local_files)"
    "skipped_uploads es =
       filter (\<lambda>f. \<not> force \<and>
                   (\<exists>t. head_response w (s3_key_of prefix f) = Inr t \<and> st_mtime f \<le> t))
         local_files"
    "\<not> force \<longrightarrow>
       (\<forall>f\<in>set local_files. \<forall>x. head_response w (s3_key_of prefix f) \<noteq> Inl (OtherError x))"
    by (rule upload_loop_planE)
  show ?thesis unfolding res using es
    by (simp add: final_def logger_def emit_def)
qed

text \<open>
  C1. When the loop of \<open>upload_to_s3\<close> reaches a candidate, it announces the upload
  exactly when \<open>force\<close> is set, or \<open>head_object\<close> reports the key missing (404), or
  the local modification time is strictly greater than the remote \<open>LastModified\<close>. So
  in a run that returns, a dry run or one whose candidates have pairwise distinct keys,
  the plan is exactly the candidates that satisfy this condition in the world the run
  started in; in particular, without \<open>force\<close>, a file whose remote copy is as new or
  newer is never in the plan.
\<close>

theorem upload_plan_selects:
  assumes run: "returned (upload_to_s3 w prefix local_files force dry_run) = Inr success"
      and sep: "dry_run \<or> distinct (map (s3_key_of prefix) local_files)"
  shows "(\<forall>f n v.
            planned_uploads (events_since v (final (upload_one prefix force dry_run f n v))) =
              (if force \<or> head_response v (s3_key_of prefix f) = Inl (ClientError ''404'') \<or>
                  (\<exists>t. head_response v (s3_key_of prefix f) = Inr t \<and> t < st_mtime f)
               then [(f, s3_key_of prefix f)] else [])) \<and>
         planned_uploads (events_since w (final (upload_to_s3 w prefix local_files force dry_run))) =
           map (\<lambda>f. (f, s3_key_of prefix f))
             (filter (\<lambda>f. force \<or>
                          head_response w (s3_key_of prefix f) = Inl (ClientError ''404'') \<or>
                          (\<exists>t. head_response w (s3_key_of prefix f) = Inr t \<and> t < st_mtime f))
                local_files) \<and>
         (\<forall>f\<in>set local_files.
            ((f, s3_key_of prefix f) \<in>
               set (planned_uploads
                      (events_since w (final (upload_to_s3 w prefix local_files force dry_run))))) =
            (force \<or> head_response w (s3_key_of prefix f) = Inl (ClientError ''404'') \<or>
             (\<exists>t. head_response w (s3_key_of prefix f) = Inr t \<and> t < st_mtime f))) \<and>
         (\<forall>f\<in>set local_files. \<forall>t.
            \<not> force \<and> head_response w (s3_key_of prefix f) = Inr t \<and> st_mtime f \<le> t \<longrightarrow>
            (f, s3_key_of prefix f) \<notin>
               set (planned_uploads
                      (events_since w (final (upload_to_s3 w prefix local_files force dry_run)))))"
proof -
  let ?P = "\<lambda>f. force \<or> head_response w (s3_key_of prefix f) = Inl (ClientError ''404'') \<or>
                 (\<exists>t. head_response w (s3_key_of prefix f) = Inr t \<and> t < st_mtime f)"
  let ?plan = "planned_uploads
                 (events_since w (final (upload_to_s3 w prefix local_files force dry_run)))"
  from upload_to_s3_plan[OF run sep]
  have plan: "?plan = map (\<lambda>f. (f, s3_key_of prefix f)) (filter ?P local_files)"
    by (rule conjunct1)
  have mem: "((f, s3_key_of prefix f) \<in> set ?plan) = ?P f" if "f \<in> set local_files" for f
    unfolding plan using that by (auto simp: image_iff)
  have "\<forall>f\<in>set local_files. ((f, s3_key_of prefix f) \<in> set ?plan) = ?P f"
    using mem by blast
  moreover have "\<forall>f\<in>set local_files. \<forall>t.
            \<not> force \<and> head_response w (s3_key_of prefix f) = Inr t \<and> st_mtime f \<le> t \<longrightarrow>
            (f, s3_key_of prefix f) \<notin> set ?plan"
    using mem by auto
  moreover have "\<forall>f n v.
            planned_uploads (events_since v (final (upload_one prefix force dry_run f n v))) =
              (if force \<or> head_response v (s3_key_of prefix f) = Inl (ClientError ''404'') \<or>
                  (\<exists>t. head_response v (s3_key_of prefix f) = Inr t \<and> t < st_mtime f)
               then [(f, s3_key_of prefix f)] else [])"
  proof (intro allI)
    fix f n v
    obtain es where es: "trace (final (upload_one prefix force dry_run f n v)) = trace v @ es"
      "planned_uploads es =
         (if force \<or> head_response v (s3_key_of prefix f) = Inl (ClientError ''404'') \<or>
             (\<exists>t. head_response v (s3_key_of prefix f) = Inr t \<and> t < st_mtime f)
          then [(f, s3_key_of prefix f)] else [])"
      by (rule upload_one_eventsE[of prefix force dry_run f n v])
    from events_since_append[OF es(1)] es(2)
    show "planned_uploads (events_since v (final (upload_one prefix force dry_run f n v))) =
              (if force \<or> head_response v (s3_key_of prefix f) = Inl (ClientError ''404'') \<or>
                  (\<exists>t. head_response v (s3_key_of prefix f) = Inr t \<and> t < st_mtime f)
               then [(f, s3_key_of prefix f)] else [])"
      by simp
  qed
  ultimately show ?thesis using plan by (intro conjI)
qed

theorem upload_plan_selects_witness:
  "planned_uploads
     (events_since nightly
        (final (upload_to_s3 nightly ''clamav/databases/''
                  [daily_local, main_local, bytecode_local] False False))) =
     [(daily_local, ''clamav/databases/daily.cvd''), (main_local, ''clamav/databases/main.cvd'')]"
proof -
  have run: "returned (upload_to_s3 nightly ''clamav/databases/''
                  [daily_local, main_local, bytecode_local] False False) = Inr False"
    by (simp add: upload_defs returned_def example_defs)
  have sep: "False \<or> distinct (map (s3_key_of ''clamav/databases/'')
                                  [daily_local, main_local, bytecode_local])"
    by (simp add: s3_key_of_def example_defs)
  from upload_plan_selects[OF run sep] show ?thesis
    by (simp add: head_response_def s3_key_of_def example_defs)
qed


section \<open>Upload: dry runs, settled files\<close>

lemma upload_one_dry_returns:
  assumes "force \<or> (\<forall>x. head_response w (s3_key_of p f) \<noteq> Inl (OtherError x))"
  shows "\<exists>n1 w1. upload_one p force True f n w = Inr (n1, w1)"
  by (rule upload_one_cases[where p = p and force = force and dry = True and f = f and n = n and w = w])
     (use assms in \<open>auto simp: Let_def split: exn.splits\<close>)

lemma upload_loop_dry_returns:
  assumes "force \<or> (\<forall>f\<in>set fs. \<forall>x. head_response w (s3_key_of p f) \<noteq> Inl (OtherError x))"
  shows "\<exists>n' w'. upload_loop p force True fs n w = Inr (n', w')"
  using assms
proof (induction fs arbitrary: n w)
  case Nil
  show ?case by simp
next
  case (Cons f fs)
  from Cons.prems have "force \<or> (\<forall>x. head_response w (s3_key_of p f) \<noteq> Inl (OtherError x))"
    by auto
  from upload_one_dry_returns[OF this, of n] obtain n1 w1
    where r: "upload_one p force True f n w = Inr (n1, w1)" by blast
  then have w1: "final (upload_one p force True f n w) = w1" by (simp add: final_def)
  from upload_one_final[of p force True f n w]
  have fr: "surr w1 = surr w" "objects w1 = objects w" unfolding w1 by simp_all
  have same: "head_response w1 k = head_response w k" for k
    by (rule head_response_frame) (simp_all add: fr)
  from Cons.prems have "force \<or> (\<forall>f\<in>set fs. \<forall>x. head_response w1 (s3_key_of p f) \<noteq> Inl (OtherError x))"
    by (auto simp: same)
  from Cons.IH[OF this, of n1] show ?case using r by simp
qed




section \<open>Paths and directories\<close>

lemma is_relative_to_iff: "is_relative_to p q = (\<exists>s. p = q @ s)"
proof
  assume "is_relative_to p q"
  then have "p = q @ drop (length q) p"
    unfolding is_relative_to_def by (metis append_take_drop_id)
  then show "\<exists>s. p = q @ s" ..
next
  assume "\<exists>s. p = q @ s"
  then show "is_relative_to p q" unfolding is_relative_to_def by auto
qed

lemma is_relative_to_refl [simp]: "is_relative_to p p"
  by (simp add: is_relative_to_def)

lemma is_relative_to_trans:
  "is_relative_to p q \<Longrightarrow> is_relative_to q r \<Longrightarrow> is_relative_to p r"
  unfolding is_relative_to_iff by auto

lemma is_relative_to_snoc: "is_relative_to (p @ [c]) p"
  unfolding is_relative_to_iff by auto

lemma is_relative_to_parent: "is_relative_to p (parent p)"
proof (cases "p = [] \<or> p = [''/'']")
  case True
  then show ?thesis by (auto simp: parent_def)
next
  case False
  then have "p = butlast p @ [last p]" by simp
  then have "is_relative_to p (butlast p)" by (metis is_relative_to_snoc)
  with False show ?thesis by (simp add: parent_def)
qed

lemma entry_changed_frame:
  "surr (entry_changed d w) = surr w" "objects (entry_changed d w) = objects w"
  "mtimes (entry_changed d w) = mtimes w" "trace (entry_changed d w) = trace w"
  "dirs (entry_changed d w) q = dirs w q \<or> (q = d \<and> dirs (entry_changed d w) q = Some (write_stamp (surr w) q))"
  by (simp_all add: entry_changed_def)

lemma mkdir_rev_frame:
  "surr (mkdir_rev r w) = surr w \<and> objects (mkdir_rev r w) = objects w \<and>
   mtimes (mkdir_rev r w) = mtimes w \<and> trace (mkdir_rev r w) = trace w \<and>
   (\<forall>q. dirs (mkdir_rev r w) q = dirs w q \<or>
        (is_relative_to (rev r) q \<and> dirs (mkdir_rev r w) q = Some (write_stamp (surr w) q)))"
proof (induction r arbitrary: w)
  case Nil
  show ?case by simp
next
  case (Cons c r)
  let ?p = "rev (c # r)"
  show ?case
  proof (cases "dirs w ?p \<noteq> None")
    case True
    then show ?thesis by simp
  next
    case False
    define m where "m = mkdir_rev r w"
    define w1 where "w1 = entry_changed (rev r) m"
    define R where "R = mkdir_rev (c # r) w"
    have res: "R = w1\<lparr>dirs := (dirs w1)(?p \<mapsto> write_stamp (surr w1) ?p)\<rparr>"
      using False by (simp add: R_def w1_def m_def Let_def)
    have ih: "surr m = surr w" "objects m = objects w" "mtimes m = mtimes w" "trace m = trace w"
      "\<And>q. dirs m q = dirs w q \<or>
          (is_relative_to (rev r) q \<and> dirs m q = Some (write_stamp (surr w) q))"
      using Cons.IH[of w] by (simp_all add: m_def)
    have s: "surr w1 = surr w" "objects w1 = objects w" "mtimes w1 = mtimes w"
      "trace w1 = trace w"
      using ih(1-4) by (simp_all add: w1_def entry_changed_frame)
    have up: "is_relative_to ?p (rev r)" using is_relative_to_snoc[of "rev r" c] by simp
    have d: "dirs R q = dirs w q \<or>
        (is_relative_to ?p q \<and> dirs R q = Some (write_stamp (surr w) q))" for q
    proof (cases "q = ?p")
      case True
      then show ?thesis unfolding res using s(1) by simp
    next
      case nq: False
      then have eq: "dirs R q = dirs w1 q" unfolding res by simp
      from entry_changed_frame(5)[of "rev r" m q]
      have "dirs w1 q = dirs m q \<or> (q = rev r \<and> dirs w1 q = Some (write_stamp (surr w) q))"
        unfolding w1_def ih(1) .
      then show ?thesis
      proof
        assume t: "dirs w1 q = dirs m q"
        from ih(5)[of q] show ?thesis
        proof
          assume "dirs m q = dirs w q"
          with t eq show ?thesis by simp
        next
          assume a: "is_relative_to (rev r) q \<and> dirs m q = Some (write_stamp (surr w) q)"
          then have "is_relative_to ?p q" using up is_relative_to_trans by blast
          with a t eq show ?thesis by simp
        qed
      next
        assume t: "q = rev r \<and> dirs w1 q = Some (write_stamp (surr w) q)"
        then have "is_relative_to ?p q" using up by simp
        moreover from t eq have "dirs R q = Some (write_stamp (surr w) q)" by auto
        ultimately show ?thesis by blast
      qed
    qed
    have "surr R = surr w \<and> objects R = objects w \<and> mtimes R = mtimes w \<and> trace R = trace w"
      unfolding res using s by simp
    with d show ?thesis unfolding R_def by blast
  qed
qed

lemma mkdir_frame:
  "surr (mkdir p w) = surr w" "objects (mkdir p w) = objects w"
  "mtimes (mkdir p w) = mtimes w" "trace (mkdir p w) = trace w"
  "dirs (mkdir p w) q = dirs w q \<or>
     (is_relative_to p q \<and> dirs (mkdir p w) q = Some (write_stamp (surr w) q))"
  using mkdir_rev_frame[of "rev p" w] by (simp_all add: mkdir_def)

lemma reads_same:
  "mtimes w1 p = mtimes w p \<Longrightarrow> dirs w1 p = dirs w p \<Longrightarrow>
   exists w1 p = exists w p \<and> stat_mtime w1 p = stat_mtime w p"
  by (simp add: exists_def stat_mtime_def split: option.split)

lemma reads_emit [simp]:
  "exists (emit e w) p = exists w p" "stat_mtime (emit e w) p = stat_mtime w p"
  "exists (logger l w) p = exists w p" "stat_mtime (logger l w) p = stat_mtime w p"
  by (simp_all add: exists_def stat_mtime_def emit_def logger_def split: option.split)



section \<open>Download: one iteration\<close>

lemma download_selected_dry:
  "download_selected True k lp n w = Inr (n + 1, logger (Info_would_download k lp) w)"
  by (simp add: download_selected_def)

lemma download_selected_real:
  "\<exists>w1. download_selected False k lp n w =
          (case download_fault (surr w) k of None \<Rightarrow> Inr (n + 1, w1) | Some e \<Rightarrow> Inl (e, w1)) \<and>
        surr w1 = surr w \<and> objects w1 = objects w \<and>
        trace w1 = trace w @ [Log (Info_downloading k lp), Call (Mkdir_parent lp),
                              Call (DownloadFile k lp)] \<and>
        mtimes w1 = (case download_fault (surr w) k of
                       None \<Rightarrow> (mtimes w)(lp \<mapsto> write_stamp (surr w) lp)
                     | Some e \<Rightarrow> mtimes w) \<and>
        (\<forall>q. dirs w1 q = dirs w q \<or>
             (is_relative_to lp q \<and> dirs w1 q = Some (write_stamp (surr w) q)))"
proof -
  let ?a = "emit (Call (Mkdir_parent lp)) (logger (Info_downloading k lp) w)"
  let ?w2 = "mkdir (parent lp) ?a"
  let ?w3 = "emit (Call (DownloadFile k lp)) ?w2"
  have a: "surr ?a = surr w" "objects ?a = objects w" "mtimes ?a = mtimes w" "dirs ?a = dirs w"
    "trace ?a = trace w @ [Log (Info_downloading k lp), Call (Mkdir_parent lp)]"
    by (simp_all add: emit_def logger_def)
  have w2: "surr ?w2 = surr w" "objects ?w2 = objects w" "mtimes ?w2 = mtimes w"
    "trace ?w2 = trace w @ [Log (Info_downloading k lp), Call (Mkdir_parent lp)]"
    using a by (simp_all add: mkdir_frame)
  have up: "is_relative_to lp q" if "is_relative_to (parent lp) q" for q
    using is_relative_to_trans[OF is_relative_to_parent that] .
  have d2: "dirs ?w2 q = dirs w q \<or>
     (is_relative_to lp q \<and> dirs ?w2 q = Some (write_stamp (surr w) q))" for q
    using mkdir_frame(5)[of "parent lp" ?a q] a up by auto
  have w3: "surr ?w3 = surr w" "objects ?w3 = objects w" "mtimes ?w3 = mtimes w"
    "dirs ?w3 = dirs ?w2"
    "trace ?w3 = trace w @ [Log (Info_downloading k lp), Call (Mkdir_parent lp),
                            Call (DownloadFile k lp)]"
    using w2 by (simp_all add: emit_def)
  show ?thesis
  proof (cases "download_fault (surr w) k")
    case (Some e)
    then have "download_selected False k lp n w = Inl (e, ?w3)"
      by (simp add: download_selected_def download_file_def Let_def w2)
    with Some w3 d2 show ?thesis by (intro exI[of _ ?w3]) simp
  next
    case None
    let ?w4 = "entry_changed (parent lp) (?w3\<lparr>mtimes := (mtimes ?w3)(lp \<mapsto> write_stamp (surr ?w2) lp)\<rparr>)"
    from None have r: "download_selected False k lp n w = Inr (n + 1, ?w4)"
      by (simp add: download_selected_def download_file_def Let_def w2)
    have w4: "surr ?w4 = surr w" "objects ?w4 = objects w"
      "mtimes ?w4 = (mtimes w)(lp \<mapsto> write_stamp (surr w) lp)"
      "trace ?w4 = trace w @ [Log (Info_downloading k lp), Call (Mkdir_parent lp),
                              Call (DownloadFile k lp)]"
      using w3 w2 by (simp_all add: entry_changed_frame)
    have d4: "dirs ?w4 q = dirs w q \<or>
       (is_relative_to lp q \<and> dirs ?w4 q = Some (write_stamp (surr w) q))" for q
      using entry_changed_frame(5)[of "parent lp"
              "?w3\<lparr>mtimes := (mtimes ?w3)(lp \<mapsto> write_stamp (surr ?w2) lp)\<rparr>" q]
        d2[of q] w3 is_relative_to_parent[of lp]
      by auto
    from None r w4 d4 show ?thesis by (intro exI[of _ ?w4]) simp
  qed
qed


text \<open>The five ways an iteration can go.\<close>

lemma download_one_cases:
  obtains
    (would) "dry"
      "force \<or> (exists w (local_path_of db p (Key obj)) \<and>
                 stat_mtime w (local_path_of db p (Key obj)) < LastModified obj)"
      "download_one p db force dry obj n w =
         Inr (n + 1, logger (Info_would_download (Key obj) (local_path_of db p (Key obj))) w)"
  | (fetched) w1 where "\<not> dry"
      "force \<or> (exists w (local_path_of db p (Key obj)) \<and>
                 stat_mtime w (local_path_of db p (Key obj)) < LastModified obj)"
      "download_fault (surr w) (Key obj) = None"
      "download_one p db force dry obj n w = Inr (n + 1, w1)"
      "surr w1 = surr w" "objects w1 = objects w"
      "trace w1 = trace w @ [Log (Info_downloading (Key obj) (local_path_of db p (Key obj))),
                             Call (Mkdir_parent (local_path_of db p (Key obj))),
                             Call (DownloadFile (Key obj) (local_path_of db p (Key obj)))]"
      "mtimes w1 = (mtimes w)(local_path_of db p (Key obj) \<mapsto>
                                write_stamp (surr w) (local_path_of db p (Key obj)))"
      "\<forall>q. dirs w1 q = dirs w q \<or>
           (is_relative_to (local_path_of db p (Key obj)) q \<and>
            dirs w1 q = Some (write_stamp (surr w) q))"
  | (fetch_failed) e w1 where "\<not> dry"
      "force \<or> (exists w (local_path_of db p (Key obj)) \<and>
                 stat_mtime w (local_path_of db p (Key obj)) < LastModified obj)"
      "download_fault (surr w) (Key obj) = Some e"
      "download_one p db force dry obj n w = Inl (e, w1)"
      "surr w1 = surr w" "objects w1 = objects w"
      "trace w1 = trace w @ [Log (Info_downloading (Key obj) (local_path_of db p (Key obj))),
                             Call (Mkdir_parent (local_path_of db p (Key obj))),
                             Call (DownloadFile (Key obj) (local_path_of db p (Key obj)))]"
      "mtimes w1 = mtimes w"
      "\<forall>q. dirs w1 q = dirs w q \<or>
           (is_relative_to (local_path_of db p (Key obj)) q \<and>
            dirs w1 q = Some (write_stamp (surr w) q))"
  | (kept) "\<not> force" "exists w (local_path_of db p (Key obj))"
      "LastModified obj \<le> stat_mtime w (local_path_of db p (Key obj))"
      "download_one p db force dry obj n w =
         Inr (n, logger (Debug_skipping_download (relative_path_of p (Key obj))) w)"
  | (missing) "\<not> force" "\<not> exists w (local_path_of db p (Key obj))"
      "download_one p db force dry obj n w = Inr (n, w)"
proof -
  let ?lp = "local_path_of db p (Key obj)"
  have sel: thesis
    if "force \<or> (exists w ?lp \<and> stat_mtime w ?lp < LastModified obj)"
      and "download_one p db force dry obj n w = download_selected dry (Key obj) ?lp n w"
  proof (cases dry)
    case True
    with that would show thesis by (simp add: download_selected_dry)
  next
    case False
    from download_selected_real[of "Key obj" ?lp n w] obtain w1 where
      r: "download_selected False (Key obj) ?lp n w =
          (case download_fault (surr w) (Key obj) of
             None \<Rightarrow> Inr (n + 1, w1) | Some e \<Rightarrow> Inl (e, w1))"
      and f: "surr w1 = surr w" "objects w1 = objects w"
        "trace w1 = trace w @ [Log (Info_downloading (Key obj) ?lp), Call (Mkdir_parent ?lp),
                               Call (DownloadFile (Key obj) ?lp)]"
        "mtimes w1 = (case download_fault (surr w) (Key obj) of
                       None \<Rightarrow> (mtimes w)(?lp \<mapsto> write_stamp (surr w) ?lp)
                     | Some e \<Rightarrow> mtimes w)"
        "\<forall>q. dirs w1 q = dirs w q \<or>
             (is_relative_to ?lp q \<and> dirs w1 q = Some (write_stamp (surr w) q))"
      by blast
    show thesis
    proof (cases "download_fault (surr w) (Key obj)")
      case None
      show thesis
        by (rule fetched[of w1]) (use None False that r f in simp_all)
    next
      case (Some e)
      show thesis
        by (rule fetch_failed[of e w1]) (use Some False that r f in simp_all)
    qed
  qed
  show thesis
  proof (cases force)
    case True
    then have "download_one p db force dry obj n w = download_selected dry (Key obj) ?lp n w"
      by (simp add: download_one_def Let_def)
    with True sel show thesis by simp
  next
    case nf: False
    show thesis
    proof (cases "exists w ?lp")
      case False
      with nf missing show thesis by (simp add: download_one_def Let_def)
    next
      case ex: True
      show thesis
      proof (cases "stat_mtime w ?lp < LastModified obj")
        case True
        with nf ex have "download_one p db force dry obj n w = download_selected dry (Key obj) ?lp n w"
          by (simp add: download_one_def Let_def)
        with True ex sel show thesis by simp
      next
        case False
        with nf ex kept show thesis
          by (simp add: download_one_def Let_def)
      qed
    qed
  qed
qed

lemma download_one_final:
  "surr (final (download_one p db force dry obj n w)) = surr w \<and>
   objects (final (download_one p db force dry obj n w)) = objects w \<and>
   (\<forall>q. mtimes (final (download_one p db force dry obj n w)) q = mtimes w q \<or>
        (q = local_path_of db p (Key obj) \<and>
         mtimes (final (download_one p db force dry obj n w)) q =
           Some (write_stamp (surr w) q))) \<and>
   (\<forall>q. dirs (final (download_one p db force dry obj n w)) q = dirs w q \<or>
        (is_relative_to (local_path_of db p (Key obj)) q \<and>
         dirs (final (download_one p db force dry obj n w)) q =
           Some (write_stamp (surr w) q))) \<and>
   (dry \<longrightarrow> mtimes (final (download_one p db force dry obj n w)) = mtimes w \<and>
            dirs (final (download_one p db force dry obj n w)) = dirs w)"
  by (rule download_one_cases[where p = p and db = db and force = force and dry = dry
        and obj = obj and n = n and w = w])
     (auto simp: step_unfold)

lemma download_one_events:
  "\<exists>es. trace (final (download_one p db force dry obj n w)) = trace w @ es \<and>
     planned_downloads es =
       (if force \<or> (exists w (local_path_of db p (Key obj)) \<and>
                     stat_mtime w (local_path_of db p (Key obj)) < LastModified obj)
        then [(Key obj, local_path_of db p (Key obj))] else []) \<and>
     (dry \<longrightarrow> copies es = [])"
  by (rule download_one_cases[where p = p and db = db and force = force and dry = dry
        and obj = obj and n = n and w = w])
     (auto simp: step_unfold)

lemma download_one_eventsE:
  obtains es where
    "trace (final (download_one p db force dry obj n w)) = trace w @ es"
    "planned_downloads es =
       (if force \<or> (exists w (local_path_of db p (Key obj)) \<and>
                     stat_mtime w (local_path_of db p (Key obj)) < LastModified obj)
        then [(Key obj, local_path_of db p (Key obj))] else [])"
    "dry \<longrightarrow> copies es = []"
proof -
  from download_one_events[of p db force dry obj n w] obtain es where
    e: "trace (final (download_one p db force dry obj n w)) = trace w @ es \<and>
     planned_downloads es =
       (if force \<or> (exists w (local_path_of db p (Key obj)) \<and>
                     stat_mtime w (local_path_of db p (Key obj)) < LastModified obj)
        then [(Key obj, local_path_of db p (Key obj))] else []) \<and>
     (dry \<longrightarrow> copies es = [])" by (rule exE)
  show thesis
    by (rule that[OF conjunct1[OF e] conjunct1[OF conjunct2[OF e]] conjunct2[OF conjunct2[OF e]]])
qed

lemma download_one_dry_returns:
  "\<exists>n1 w1. download_one p db force True obj n w = Inr (n1, w1)"
  by (rule download_one_cases[where p = p and db = db and force = force and dry = True
        and obj = obj and n = n and w = w]) auto


section \<open>Download: the loop\<close>

lemma download_loop_final:
  "surr (final (download_loop p db force dry objs n w)) = surr w \<and>
   objects (final (download_loop p db force dry objs n w)) = objects w \<and>
   (dry \<longrightarrow> mtimes (final (download_loop p db force dry objs n w)) = mtimes w) \<and>
   (\<exists>es. trace (final (download_loop p db force dry objs n w)) = trace w @ es \<and>
         (dry \<longrightarrow> copies es = []))"
proof (induction objs arbitrary: n w)
  case Nil
  show ?case by (simp add: final_def copies_def)
next
  case (Cons obj objs)
  let ?r = "download_one p db force dry obj n w"
  obtain es1 where es1: "trace (final ?r) = trace w @ es1" "dry \<longrightarrow> copies es1 = []"
    by (rule download_one_eventsE[of p db force dry obj n w])
  from download_one_final[of p db force dry obj n w]
  have f1: "surr (final ?r) = surr w" and f2: "objects (final ?r) = objects w"
    and f3: "dry \<longrightarrow> mtimes (final ?r) = mtimes w" by simp_all
  show ?case
  proof (cases ?r)
    case (Inl ew)
    then have eq: "download_loop p db force dry (obj # objs) n w = ?r" by simp
    show ?thesis unfolding eq using f1 f2 f3 es1 by simp
  next
    case (Inr nw)
    obtain n1 w1 where nw: "nw = (n1, w1)" by (cases nw)
    with Inr have r: "?r = Inr (n1, w1)" by simp
    then have w1: "final ?r = w1" by (simp add: final_def)
    from r have loop: "download_loop p db force dry (obj # objs) n w =
        download_loop p db force dry objs n1 w1"
      by simp
    from Cons.IH[of n1 w1] obtain es2 where
      ih: "surr (final (download_loop p db force dry objs n1 w1)) = surr w1"
          "objects (final (download_loop p db force dry objs n1 w1)) = objects w1"
          "dry \<longrightarrow> mtimes (final (download_loop p db force dry objs n1 w1)) = mtimes w1"
          "trace (final (download_loop p db force dry objs n1 w1)) = trace w1 @ es2"
          "dry \<longrightarrow> copies es2 = []" by blast
    have t: "trace (final (download_loop p db force dry objs n1 w1)) = trace w @ (es1 @ es2)"
      using ih(4) es1(1) w1 by simp
    have c: "dry \<longrightarrow> copies (es1 @ es2) = []" using es1(2) ih(5) by simp
    have "\<exists>es. trace (final (download_loop p db force dry objs n1 w1)) = trace w @ es \<and>
            (dry \<longrightarrow> copies es = [])"
      using t c by (intro exI[of _ "es1 @ es2"] conjI)
    moreover have "surr (final (download_loop p db force dry objs n1 w1)) = surr w"
      using ih(1) f1 w1 by simp
    moreover have "objects (final (download_loop p db force dry objs n1 w1)) = objects w"
      using ih(2) f2 w1 by simp
    moreover have "dry \<longrightarrow> mtimes (final (download_loop p db force dry objs n1 w1)) = mtimes w"
      using ih(3) f3 w1 by auto
    ultimately show ?thesis unfolding loop by (intro conjI)
  qed
qed

text \<open>
  The plan of a completed loop, read against the state the loop started in. In a real
  run this needs the destinations to be apart: a copy writes its destination and stamps
  the directories on the way to it.
\<close>

lemma download_loop_plan:
  assumes "download_loop p db force dry objs n w = Inr (n', w')"
      and "dry \<or> apart (map (\<lambda>obj. local_path_of db p (Key obj)) objs)"
  shows "\<exists>es. trace w' = trace w @ es \<and>
           planned_downloads es =
             map (\<lambda>obj. (Key obj, local_path_of db p (Key obj)))
               (filter (\<lambda>obj. force \<or>
                          (exists w (local_path_of db p (Key obj)) \<and>
                           stat_mtime w (local_path_of db p (Key obj)) < LastModified obj))
                  objs)"
  using assms
proof (induction objs arbitrary: n w)
  case Nil
  then show ?case by (simp add: planned_downloads_def)
next
  case (Cons obj objs)
  let ?lp = "local_path_of db p (Key obj)"
  let ?r = "download_one p db force dry obj n w"
  from Cons.prems(1) obtain n1 w1 where r: "?r = Inr (n1, w1)"
    and loop: "download_loop p db force dry objs n1 w1 = Inr (n', w')"
    by (auto split: sum.splits)
  from r have w1: "final ?r = w1" by (simp add: final_def)
  obtain es1 where es1': "trace (final ?r) = trace w @ es1"
      and es1_plan: "planned_downloads es1 =
       (if force \<or> (exists w ?lp \<and> stat_mtime w ?lp < LastModified obj)
        then [(Key obj, ?lp)] else [])"
    by (rule download_one_eventsE[of p db force dry obj n w])
  have es1: "trace w1 = trace w @ es1" using es1' w1 by simp
  from download_one_final[of p db force dry obj n w, unfolded w1]
  have fr_m: "\<forall>q. mtimes w1 q = mtimes w q \<or> (q = ?lp \<and> mtimes w1 q = Some (write_stamp (surr w) q))"
    and fr_d: "\<forall>q. dirs w1 q = dirs w q \<or>
                 (is_relative_to ?lp q \<and> dirs w1 q = Some (write_stamp (surr w) q))"
    and fr_dry: "dry \<longrightarrow> mtimes w1 = mtimes w \<and> dirs w1 = dirs w"
    by simp_all
  have same: "exists w1 (local_path_of db p (Key g)) = exists w (local_path_of db p (Key g)) \<and>
              stat_mtime w1 (local_path_of db p (Key g)) =
                stat_mtime w (local_path_of db p (Key g))"
    if "g \<in> set objs" for g
  proof (rule reads_same)
    let ?lg = "local_path_of db p (Key g)"
    have off: "dry \<or> \<not> is_relative_to ?lp ?lg"
    proof (cases dry)
      case True
      then show ?thesis by simp
    next
      case False
      with Cons.prems(2)
      have "\<forall>q\<in>set (map (\<lambda>obj. local_path_of db p (Key obj)) objs). \<not> is_relative_to ?lp q"
        by simp
      moreover from that have "?lg \<in> set (map (\<lambda>obj. local_path_of db p (Key obj)) objs)"
        by simp
      ultimately show ?thesis by blast
    qed
    then have ne: "dry \<or> ?lg \<noteq> ?lp" by auto
    show "mtimes w1 ?lg = mtimes w ?lg" using fr_m fr_dry ne by metis
    show "dirs w1 ?lg = dirs w ?lg" using fr_d fr_dry off by metis
  qed
  from Cons.prems(2) have d: "dry \<or> apart (map (\<lambda>obj. local_path_of db p (Key obj)) objs)"
    by auto
  from Cons.IH[OF loop d] obtain es2 where
    ih: "trace w' = trace w1 @ es2 \<and>
      planned_downloads es2 =
             map (\<lambda>obj. (Key obj, local_path_of db p (Key obj)))
               (filter (\<lambda>obj. force \<or>
                          (exists w1 (local_path_of db p (Key obj)) \<and>
                           stat_mtime w1 (local_path_of db p (Key obj)) < LastModified obj))
                  objs)"
    by (rule exE)
  note es2 = conjunct1[OF ih] conjunct2[OF ih]
  have p2: "planned_downloads es2 =
             map (\<lambda>obj. (Key obj, local_path_of db p (Key obj)))
               (filter (\<lambda>obj. force \<or>
                          (exists w (local_path_of db p (Key obj)) \<and>
                           stat_mtime w (local_path_of db p (Key obj)) < LastModified obj))
                  objs)"
    unfolding es2(2)
    by (rule arg_cong[where f = "map (\<lambda>obj. (Key obj, local_path_of db p (Key obj)))"],
        rule filter_cong) (simp_all add: same)
  have "trace w' = trace w @ (es1 @ es2)" using es1 es2(1) by simp
  moreover have "planned_downloads (es1 @ es2) =
             map (\<lambda>obj. (Key obj, local_path_of db p (Key obj)))
               (filter (\<lambda>obj. force \<or>
                          (exists w (local_path_of db p (Key obj)) \<and>
                           stat_mtime w (local_path_of db p (Key obj)) < LastModified obj))
                  (obj # objs))"
    using es1_plan p2 by simp
  ultimately show ?case by (intro exI[of _ "es1 @ es2"] conjI)
qed

lemma download_loop_dry_returns:
  "\<exists>n' w'. download_loop p db force True objs n w = Inr (n', w')"
proof (induction objs arbitrary: n w)
  case Nil
  show ?case by simp
next
  case (Cons obj objs)
  from download_one_dry_returns[of p db force obj n w] obtain n1 w1
    where r: "download_one p db force True obj n w = Inr (n1, w1)" by blast
  from Cons.IH[of n1 w1] show ?case using r by simp
qed



section \<open>The two functions, whatever their outcome\<close>

lemma download_from_s3_cases:
  obtains
    (list_denied) c where "list_response (surr w) p = Inl (ClientError c)"
      "download_from_s3 w p db force dry =
         Inr (False, logger (Error_failed_to_download (ClientError c))
                       (emit (Call (ListObjectsV2 p)) w))"
  | (list_raised) x where "list_response (surr w) p = Inl (OtherError x)"
      "download_from_s3 w p db force dry = Inl (OtherError x, emit (Call (ListObjectsV2 p)) w)"
  | (no_contents) "list_response (surr w) p = Inr None"
      "download_from_s3 w p db force dry =
         Inr (True, logger Warning_no_files_found (emit (Call (ListObjectsV2 p)) w))"
  | (aborted) contents c w3 where "list_response (surr w) p = Inr (Some contents)"
      "download_loop p db force dry contents 0
         (mkdir db (emit (Call Mkdir_db_dir) (emit (Call (ListObjectsV2 p)) w))) = Inl (ClientError c, w3)"
      "download_from_s3 w p db force dry =
         Inr (False, logger (Error_failed_to_download (ClientError c)) w3)"
  | (crashed) contents x w3 where "list_response (surr w) p = Inr (Some contents)"
      "download_loop p db force dry contents 0
         (mkdir db (emit (Call Mkdir_db_dir) (emit (Call (ListObjectsV2 p)) w))) = Inl (OtherError x, w3)"
      "download_from_s3 w p db force dry = Inl (OtherError x, w3)"
  | (completed) contents n w3 where "list_response (surr w) p = Inr (Some contents)"
      "download_loop p db force dry contents 0
         (mkdir db (emit (Call Mkdir_db_dir) (emit (Call (ListObjectsV2 p)) w))) = Inr (n, w3)"
      "download_from_s3 w p db force dry =
         Inr (True, logger (if \<not> dry then Info_downloaded n (length contents)
                            else Info_would_download_total n (length contents)) w3)"
proof (cases "list_response (surr w) p")
  case (Inl e)
  show thesis
  proof (cases e)
    case (ClientError c)
    with Inl list_denied[of c] show thesis
      by (simp add: download_from_s3_def list_objects_v2_def Let_def)
  next
    case (OtherError x)
    with Inl list_raised[of x] show thesis
      by (simp add: download_from_s3_def list_objects_v2_def Let_def)
  qed
next
  case (Inr listing)
  show thesis
  proof (cases listing)
    case None
    with Inr no_contents show thesis
      by (simp add: download_from_s3_def list_objects_v2_def Let_def)
  next
    case (Some contents)
    let ?w2 = "mkdir db (emit (Call Mkdir_db_dir) (emit (Call (ListObjectsV2 p)) w))"
    show thesis
    proof (cases "download_loop p db force dry contents 0 ?w2")
      case (Inl ew)
      obtain e w3 where ew: "ew = (e, w3)" by (cases ew)
      show thesis
      proof (cases e)
        case (ClientError c)
        with Inl ew Inr Some aborted[of contents c w3] show thesis
          by (simp add: download_from_s3_def list_objects_v2_def Let_def)
      next
        case (OtherError x)
        with Inl ew Inr Some crashed[of contents x w3] show thesis
          by (simp add: download_from_s3_def list_objects_v2_def Let_def)
      qed
    next
      case r: (Inr nw)
      obtain n w3 where "nw = (n, w3)" by (cases nw)
      with r Inr Some completed[of contents n w3] show thesis
        by (simp add: download_from_s3_def list_objects_v2_def Let_def)
    qed
  qed
qed

lemma upload_to_s3_final:
  "surr (final (upload_to_s3 w p fs force dry)) = surr w \<and>
   mtimes (final (upload_to_s3 w p fs force dry)) = mtimes w \<and>
   (dry \<longrightarrow> objects (final (upload_to_s3 w p fs force dry)) = objects w) \<and>
   (dry \<longrightarrow> copies (events_since w (final (upload_to_s3 w p fs force dry))) = [])"
proof (rule upload_to_s3_cases[of fs w p force dry])
  assume res: "upload_to_s3 w p fs force dry = Inr (True, logger Warning_no_local_files w)"
  show ?thesis unfolding res by (simp add: final_def logger_def emit_def events_since_def)
next
  fix e w1
  assume loop: "upload_loop p force dry fs 0 w = Inl (e, w1)"
    and res: "upload_to_s3 w p fs force dry = Inl (e, w1)"
  from loop have w1: "final (upload_loop p force dry fs 0 w) = w1" by (simp add: final_def)
  from upload_loop_final[of p force dry fs 0 w, unfolded w1] obtain es where
    "surr w1 = surr w" "mtimes w1 = mtimes w" "dry \<longrightarrow> objects w1 = objects w"
    "trace w1 = trace w @ es" "dry \<longrightarrow> copies es = []" by blast
  then show ?thesis unfolding res by (simp add: final_def)
next
  fix n w1
  assume loop: "upload_loop p force dry fs 0 w = Inr (n, w1)"
    and res: "upload_to_s3 w p fs force dry =
         Inr (n = length fs,
              logger (if \<not> dry then Info_uploaded n (length fs)
                      else Info_would_upload_total n (length fs)) w1)"
  from loop have w1: "final (upload_loop p force dry fs 0 w) = w1" by (simp add: final_def)
  from upload_loop_final[of p force dry fs 0 w, unfolded w1] obtain es where
    "surr w1 = surr w" "mtimes w1 = mtimes w" "dry \<longrightarrow> objects w1 = objects w"
    "trace w1 = trace w @ es" "dry \<longrightarrow> copies es = []" by blast
  then show ?thesis unfolding res by (simp add: final_def logger_def emit_def)
qed

lemma download_from_s3_final:
  "surr (final (download_from_s3 w p db force dry)) = surr w \<and>
   objects (final (download_from_s3 w p db force dry)) = objects w \<and>
   (dry \<longrightarrow> mtimes (final (download_from_s3 w p db force dry)) = mtimes w) \<and>
   (dry \<longrightarrow> copies (events_since w (final (download_from_s3 w p db force dry))) = [])"
proof -
  let ?w2 = "mkdir db (emit (Call Mkdir_db_dir) (emit (Call (ListObjectsV2 p)) w))"
  have loop: "surr w3 = surr w \<and> objects w3 = objects w \<and> (dry \<longrightarrow> mtimes w3 = mtimes w) \<and>
      (\<exists>es. trace w3 = trace w @ [Call (ListObjectsV2 p), Call Mkdir_db_dir] @ es \<and>
            (dry \<longrightarrow> copies es = []))"
    if "final (download_loop p db force dry contents 0 ?w2) = w3" for contents w3
  proof -
    from download_loop_final[of p db force dry contents 0 ?w2, unfolded that] obtain es where
      "surr w3 = surr ?w2" "objects w3 = objects ?w2" "dry \<longrightarrow> mtimes w3 = mtimes ?w2"
      "trace w3 = trace ?w2 @ es" "dry \<longrightarrow> copies es = []" by blast
    then show ?thesis by (simp add: mkdir_frame emit_def)
  qed
  show ?thesis
  proof (rule download_from_s3_cases[of w p db force dry])
    fix c
    assume res: "download_from_s3 w p db force dry =
         Inr (False, logger (Error_failed_to_download (ClientError c))
                       (emit (Call (ListObjectsV2 p)) w))"
    show ?thesis unfolding res
      by (simp add: final_def logger_def emit_def events_since_def read_unfold)
  next
    fix x
    assume res: "download_from_s3 w p db force dry = Inl (OtherError x, emit (Call (ListObjectsV2 p)) w)"
    show ?thesis unfolding res
      by (simp add: final_def logger_def emit_def events_since_def read_unfold)
  next
    assume res: "download_from_s3 w p db force dry =
         Inr (True, logger Warning_no_files_found (emit (Call (ListObjectsV2 p)) w))"
    show ?thesis unfolding res
      by (simp add: final_def logger_def emit_def events_since_def read_unfold)
  next
    fix contents c w3
    assume l: "download_loop p db force dry contents 0 ?w2 = Inl (ClientError c, w3)"
      and res: "download_from_s3 w p db force dry =
         Inr (False, logger (Error_failed_to_download (ClientError c)) w3)"
    from l have "final (download_loop p db force dry contents 0 ?w2) = w3" by (simp add: final_def)
    from loop[OF this] show ?thesis unfolding res
      by (auto simp: final_def logger_def emit_def read_unfold)
  next
    fix contents x w3
    assume l: "download_loop p db force dry contents 0 ?w2 = Inl (OtherError x, w3)"
      and res: "download_from_s3 w p db force dry = Inl (OtherError x, w3)"
    from l have "final (download_loop p db force dry contents 0 ?w2) = w3" by (simp add: final_def)
    from loop[OF this] show ?thesis unfolding res
      by (auto simp: final_def logger_def emit_def read_unfold)
  next
    fix contents n w3
    assume l: "download_loop p db force dry contents 0 ?w2 = Inr (n, w3)"
      and res: "download_from_s3 w p db force dry =
         Inr (True, logger (if \<not> dry then Info_downloaded n (length contents)
                            else Info_would_download_total n (length contents)) w3)"
    from l have "final (download_loop p db force dry contents 0 ?w2) = w3" by (simp add: final_def)
    from loop[OF this] show ?thesis unfolding res
      by (auto simp: final_def logger_def emit_def read_unfold)
  qed
qed

text \<open>
  C7, as amended. In a dry run no copy is executed: \<open>upload_file\<close> and \<open>download_file\<close>
  are never called, and the objects of the bucket and the local files keep their
  timestamps. The reads that planning needs (\<open>head_object\<close>, \<open>list_objects_v2\<close>) are
  still made.
\<close>

theorem dry_run_copies_nothing:
  "objects (final (upload_to_s3 w prefix local_files force True)) = objects w \<and>
   mtimes (final (upload_to_s3 w prefix local_files force True)) = mtimes w \<and>
   copies (events_since w (final (upload_to_s3 w prefix local_files force True))) = [] \<and>
   objects (final (download_from_s3 w prefix db_dir force True)) = objects w \<and>
   mtimes (final (download_from_s3 w prefix db_dir force True)) = mtimes w \<and>
   copies (events_since w (final (download_from_s3 w prefix db_dir force True))) = []"
  using upload_to_s3_final[of w prefix local_files force True]
    download_from_s3_final[of w prefix db_dir force True]
  by simp

text \<open>
  The claim as stated fails: a dry run does call the service and fails when the call
  fails. With \<open>head_object\<close> forbidden, the dry-run upload of one file counts nothing and
  returns \<open>False\<close>; with the listing denied, the dry-run download returns \<open>False\<close>.
\<close>

theorem dry_run_fails_when_reads_fail:
  "returned (upload_to_s3 forbidden_head ''clamav/databases/'' [daily_local] False True) = Inr False \<and>
   trace (final (upload_to_s3 forbidden_head ''clamav/databases/'' [daily_local] False True)) =
     [Call (HeadObject ''clamav/databases/daily.cvd''),
      Log (Error_failed_to_upload daily_local (ClientError ''403'')),
      Log (Info_would_upload_total 0 1)] \<and>
   returned (download_from_s3 denied_listing ''clamav/databases/'' database_dir False True) = Inr False \<and>
   trace (final (download_from_s3 denied_listing ''clamav/databases/'' database_dir False True)) =
     [Call (ListObjectsV2 ''clamav/databases/''),
      Log (Error_failed_to_download (ClientError ''AccessDenied''))]"
  by (simp add: upload_defs download_defs returned_def final_def example_defs)

section \<open>Dry run against real run\<close>

lemma upload_to_s3_completed:
  "fs \<noteq> [] \<Longrightarrow> upload_loop p force dry fs 0 w = Inr (n, w1) \<Longrightarrow>
   upload_to_s3 w p fs force dry =
     Inr (n = length fs,
          logger (if \<not> dry then Info_uploaded n (length fs)
                  else Info_would_upload_total n (length fs)) w1)"
  by (simp add: upload_to_s3_def Let_def)

lemma download_from_s3_completed:
  "list_response (surr w) p = Inr (Some contents) \<Longrightarrow>
   download_loop p db force dry contents 0
     (mkdir db (emit (Call Mkdir_db_dir) (emit (Call (ListObjectsV2 p)) w))) = Inr (n, w3) \<Longrightarrow>
   download_from_s3 w p db force dry =
     Inr (True, logger (if \<not> dry then Info_downloaded n (length contents)
                        else Info_would_download_total n (length contents)) w3)"
  by (simp add: download_from_s3_def list_objects_v2_def Let_def)

lemma download_from_s3_no_contents:
  "list_response (surr w) p = Inr None \<Longrightarrow>
   download_from_s3 w p db force dry =
     Inr (True, logger Warning_no_files_found (emit (Call (ListObjectsV2 p)) w))"
  by (simp add: download_from_s3_def list_objects_v2_def Let_def)

lemma upload_to_s3_dry_returns:
  assumes "force \<or> (\<forall>f\<in>set fs. \<forall>x. head_response w (s3_key_of p f) \<noteq> Inl (OtherError x))"
  shows "\<exists>success. returned (upload_to_s3 w p fs force True) = Inr success"
proof (cases "fs = []")
  case True
  then show ?thesis by (auto simp: upload_to_s3_def returned_def)
next
  case False
  from upload_loop_dry_returns[OF assms, of 0] obtain n w1
    where "upload_loop p force True fs 0 w = Inr (n, w1)" by blast
  from upload_to_s3_completed[OF False this] show ?thesis by (simp add: returned_def)
qed

lemma download_from_s3_dry_returns:
  assumes "list_response (surr w) p = Inr listing"
  shows "returned (download_from_s3 w p db force True) = Inr True"
proof (cases listing)
  case None
  with assms download_from_s3_no_contents[of w p db force True] show ?thesis
    by (simp add: returned_def)
next
  case (Some contents)
  from download_loop_dry_returns[of p db force contents 0
         "mkdir db (emit (Call Mkdir_db_dir) (emit (Call (ListObjectsV2 p)) w))"]
  obtain n w3 where "download_loop p db force True contents 0
         (mkdir db (emit (Call Mkdir_db_dir) (emit (Call (ListObjectsV2 p)) w))) = Inr (n, w3)" by blast
  with assms Some download_from_s3_completed[of w p contents db force True n w3] show ?thesis
    by (simp add: returned_def)
qed

lemma planned_downloads_single [simp]:
  "planned_downloads [Log (Info_downloaded a b)] = []"
  "planned_downloads [Log (Info_would_download_total a b)] = []"
  "planned_downloads [Log Warning_no_files_found] = []"
  "planned_downloads [Call c] = []"
  "planned_downloads (Call c # es) = planned_downloads es"
  "copies (Call (ListObjectsV2 p) # es) = copies es"
  "copies (Call Mkdir_db_dir # es) = copies es"
  by (simp_all add: read_unfold)

text \<open>
  The plan of a download that returned \<open>True\<close>, read against the state in which the
  loop starts: the one \<open>db_dir.mkdir\<close> leaves, in a dry run as in a real one.
\<close>

lemma download_from_s3_plan:
  assumes run: "returned (download_from_s3 w p db force dry) = Inr True"
      and sep: "dry \<or> (\<forall>contents. list_response (surr w) p = Inr (Some contents) \<longrightarrow>
                          apart (map (\<lambda>obj. local_path_of db p (Key obj)) contents))"
  shows "(\<exists>listing. list_response (surr w) p = Inr listing) \<and>
         planned_downloads (events_since w (final (download_from_s3 w p db force dry))) =
           map (\<lambda>obj. (Key obj, local_path_of db p (Key obj)))
             (filter (\<lambda>obj. force \<or>
                        (exists (mkdir db (emit (Call Mkdir_db_dir) (emit (Call (ListObjectsV2 p)) w)))
                           (local_path_of db p (Key obj)) \<and>
                         stat_mtime (mkdir db (emit (Call Mkdir_db_dir)
                                                 (emit (Call (ListObjectsV2 p)) w)))
                           (local_path_of db p (Key obj)) < LastModified obj))
                (case list_response (surr w) p of Inr (Some contents) \<Rightarrow> contents | _ \<Rightarrow> []))"
proof (rule download_from_s3_cases[of w p db force dry])
  fix c
  assume "download_from_s3 w p db force dry =
         Inr (False, logger (Error_failed_to_download (ClientError c))
                       (emit (Call (ListObjectsV2 p)) w))"
  with run show ?thesis by (simp add: returned_def)
next
  fix x
  assume "download_from_s3 w p db force dry = Inl (OtherError x, emit (Call (ListObjectsV2 p)) w)"
  with run show ?thesis by (simp add: returned_def)
next
  assume l: "list_response (surr w) p = Inr None"
    and res: "download_from_s3 w p db force dry =
         Inr (True, logger Warning_no_files_found (emit (Call (ListObjectsV2 p)) w))"
  show ?thesis unfolding res using l
    by (simp add: final_def logger_def emit_def events_since_def read_unfold)
next
  fix contents c w3
  assume "download_from_s3 w p db force dry =
         Inr (False, logger (Error_failed_to_download (ClientError c)) w3)"
  with run show ?thesis by (simp add: returned_def)
next
  fix contents x w3
  assume "download_from_s3 w p db force dry = Inl (OtherError x, w3)"
  with run show ?thesis by (simp add: returned_def)
next
  fix contents n w3
  let ?w2 = "mkdir db (emit (Call Mkdir_db_dir) (emit (Call (ListObjectsV2 p)) w))"
  assume l: "list_response (surr w) p = Inr (Some contents)"
    and loop: "download_loop p db force dry contents 0 ?w2 = Inr (n, w3)"
    and res: "download_from_s3 w p db force dry =
         Inr (True, logger (if \<not> dry then Info_downloaded n (length contents)
                            else Info_would_download_total n (length contents)) w3)"
  from sep l have d: "dry \<or> apart (map (\<lambda>obj. local_path_of db p (Key obj)) contents)" by simp
  from download_loop_plan[OF loop d] obtain es where
    ih: "trace w3 = trace ?w2 @ es \<and>
      planned_downloads es =
             map (\<lambda>obj. (Key obj, local_path_of db p (Key obj)))
               (filter (\<lambda>obj. force \<or>
                          (exists ?w2 (local_path_of db p (Key obj)) \<and>
                           stat_mtime ?w2 (local_path_of db p (Key obj)) < LastModified obj))
                  contents)"
    by (rule exE)
  have t: "trace w3 = trace w @ ([Call (ListObjectsV2 p), Call Mkdir_db_dir] @ es)"
    using conjunct1[OF ih] by (simp add: mkdir_frame emit_def)
  have ev: "events_since w (logger (if \<not> dry then Info_downloaded n (length contents)
                            else Info_would_download_total n (length contents)) w3) =
        [Call (ListObjectsV2 p), Call Mkdir_db_dir] @ es @
        [Log (if \<not> dry then Info_downloaded n (length contents)
              else Info_would_download_total n (length contents))]"
    by (rule events_since_append) (simp add: t logger_def emit_def)
  have fin: "final (download_from_s3 w p db force dry) =
      logger (if \<not> dry then Info_downloaded n (length contents)
              else Info_would_download_total n (length contents)) w3"
    unfolding res by (simp add: final_def)
  have "planned_downloads (events_since w (final (download_from_s3 w p db force dry))) =
      planned_downloads es"
    unfolding fin ev by (cases dry) simp_all
  with l conjunct2[OF ih] show ?thesis by simp
qed

text \<open>
  C3, as amended. When the real run completes (for a download, returns \<open>True\<close>) and no
  two candidates share a destination, the dry run on the same inputs completes and
  announces exactly the same transfers, in the same order; only the copy differs. For an
  upload the destinations are the S3 keys, pairwise distinct. For a download they are the
  local paths as pathlib builds them: plain paths, pairwise apart, none being another or
  a directory on the way to another (a copy writes its destination and gives a new
  modification time to the directory that holds it).
\<close>

theorem dry_run_announces_the_same_transfers:
  "(returned (upload_to_s3 w prefix local_files force False) = Inr success \<and>
    distinct (map (s3_key_of prefix) local_files) \<longrightarrow>
      (\<exists>success'. returned (upload_to_s3 w prefix local_files force True) = Inr success') \<and>
      planned_uploads (events_since w (final (upload_to_s3 w prefix local_files force True))) =
      planned_uploads (events_since w (final (upload_to_s3 w prefix local_files force False)))) \<and>
   (returned (download_from_s3 w prefix db_dir force False) = Inr True \<and>
    (\<forall>contents. list_response (surr w) prefix = Inr (Some contents) \<longrightarrow>
        apart (map (\<lambda>obj. local_path_of db_dir prefix (Key obj)) contents) \<and>
        (\<forall>obj\<in>set contents. plain (local_path_of db_dir prefix (Key obj)))) \<longrightarrow>
      returned (download_from_s3 w prefix db_dir force True) = Inr True \<and>
      planned_downloads (events_since w (final (download_from_s3 w prefix db_dir force True))) =
      planned_downloads (events_since w (final (download_from_s3 w prefix db_dir force False))))"
proof (intro conjI impI)
  assume a: "returned (upload_to_s3 w prefix local_files force False) = Inr success \<and>
    distinct (map (s3_key_of prefix) local_files)"
  then have run: "returned (upload_to_s3 w prefix local_files force False) = Inr success"
    and d: "False \<or> distinct (map (s3_key_of prefix) local_files)" by simp_all
  note real = upload_to_s3_plan[OF run d]
  from real have "force \<or> (\<forall>f\<in>set local_files. \<forall>x.
      head_response w (s3_key_of prefix f) \<noteq> Inl (OtherError x))" by blast
  from upload_to_s3_dry_returns[OF this] obtain success'
    where dry: "returned (upload_to_s3 w prefix local_files force True) = Inr success'" by blast
  then show "\<exists>success'. returned (upload_to_s3 w prefix local_files force True) = Inr success'"
    by blast
  have d': "True \<or> distinct (map (s3_key_of prefix) local_files)" by simp
  from upload_to_s3_plan[OF dry d'] real
  show "planned_uploads (events_since w (final (upload_to_s3 w prefix local_files force True))) =
      planned_uploads (events_since w (final (upload_to_s3 w prefix local_files force False)))"
    by simp
next
  assume a: "returned (download_from_s3 w prefix db_dir force False) = Inr True \<and>
    (\<forall>contents. list_response (surr w) prefix = Inr (Some contents) \<longrightarrow>
        apart (map (\<lambda>obj. local_path_of db_dir prefix (Key obj)) contents) \<and>
        (\<forall>obj\<in>set contents. plain (local_path_of db_dir prefix (Key obj))))"
  then have run: "returned (download_from_s3 w prefix db_dir force False) = Inr True"
    and d: "False \<or> (\<forall>contents. list_response (surr w) prefix = Inr (Some contents) \<longrightarrow>
        apart (map (\<lambda>obj. local_path_of db_dir prefix (Key obj)) contents))" by simp_all
  note real = download_from_s3_plan[OF run d]
  from real obtain listing where "list_response (surr w) prefix = Inr listing" by blast
  from download_from_s3_dry_returns[OF this]
  show dry: "returned (download_from_s3 w prefix db_dir force True) = Inr True" .
  have d': "True \<or> (\<forall>contents. list_response (surr w) prefix = Inr (Some contents) \<longrightarrow>
        apart (map (\<lambda>obj. local_path_of db_dir prefix (Key obj)) contents))" by simp
  from download_from_s3_plan[OF dry d'] real
  show "planned_downloads (events_since w (final (download_from_s3 w prefix db_dir force True))) =
      planned_downloads (events_since w (final (download_from_s3 w prefix db_dir force False)))"
    by simp
qed

theorem dry_run_announces_the_same_transfers_witness:
  "planned_uploads (events_since nightly (final (upload_to_s3 nightly ''clamav/databases/''
       [daily_local, main_local, bytecode_local] False True))) =
   planned_uploads (events_since nightly (final (upload_to_s3 nightly ''clamav/databases/''
       [daily_local, main_local, bytecode_local] False False))) \<and>
   planned_downloads (events_since stale_mirror
       (final (download_from_s3 stale_mirror ''clamav/databases/'' database_dir False True))) =
   planned_downloads (events_since stale_mirror
       (final (download_from_s3 stale_mirror ''clamav/databases/'' database_dir False False)))"
proof -
  have u: "returned (upload_to_s3 nightly ''clamav/databases/''
       [daily_local, main_local, bytecode_local] False False) = Inr False"
    by (simp add: upload_defs returned_def example_defs)
  have ud: "distinct (map (s3_key_of ''clamav/databases/'')
       [daily_local, main_local, bytecode_local])"
    by (simp add: s3_key_of_def example_defs)
  have d: "returned (download_from_s3 stale_mirror ''clamav/databases/'' database_dir False False) =
      Inr True"
    by (simp add: download_defs returned_def example_defs)
  have dd: "\<forall>contents. list_response (surr stale_mirror) ''clamav/databases/'' =
        Inr (Some contents) \<longrightarrow>
        apart (map (\<lambda>obj. local_path_of database_dir ''clamav/databases/'' (Key obj)) contents) \<and>
        (\<forall>obj\<in>set contents.
            plain (local_path_of database_dir ''clamav/databases/'' (Key obj)))"
    by (simp add: example_defs local_path_of_def relative_path_of_def lstrip_def path_defs)
  from dry_run_announces_the_same_transfers[of nightly "''clamav/databases/''"
      "[daily_local, main_local, bytecode_local]" False False] u ud
  have "planned_uploads (events_since nightly (final (upload_to_s3 nightly ''clamav/databases/''
       [daily_local, main_local, bytecode_local] False True))) =
   planned_uploads (events_since nightly (final (upload_to_s3 nightly ''clamav/databases/''
       [daily_local, main_local, bytecode_local] False False)))" by blast
  moreover
  from dry_run_announces_the_same_transfers[of stale_mirror "''clamav/databases/''" _ False _
      database_dir] d dd
  have "planned_downloads (events_since stale_mirror
       (final (download_from_s3 stale_mirror ''clamav/databases/'' database_dir False True))) =
   planned_downloads (events_since stale_mirror
       (final (download_from_s3 stale_mirror ''clamav/databases/'' database_dir False False)))"
    by blast
  ultimately show ?thesis by (rule conjI)
qed

text \<open>
  The claim as stated fails. The bucket lists \<open>main.cvd\<close> under two keys that map to the
  same local file, both newer than it. The dry run announces both downloads; the real run
  downloads the first, which refreshes the local file, and then skips the second.
\<close>

theorem dry_run_plan_differs_from_real_run:
  "returned (download_from_s3 doubled_slash ''clamav/databases/'' database_dir False True) =
     Inr True \<and>
   planned_downloads (events_since doubled_slash
       (final (download_from_s3 doubled_slash ''clamav/databases/'' database_dir False True))) =
     [(''clamav/databases/main.cvd'', database_dir @ [''main.cvd'']),
      (''clamav/databases//main.cvd'', database_dir @ [''main.cvd''])] \<and>
   returned (download_from_s3 doubled_slash ''clamav/databases/'' database_dir False False) =
     Inr True \<and>
   planned_downloads (events_since doubled_slash
       (final (download_from_s3 doubled_slash ''clamav/databases/'' database_dir False False))) =
     [(''clamav/databases/main.cvd'', database_dir @ [''main.cvd''])]"
  by (simp add: download_defs run_defs example_defs)

section \<open>Running twice\<close>






section \<open>What upload\_to\_s3 returns\<close>

lemma skipped_uploads_logged:
  "(f \<in> set (skipped_uploads es)) = (Log (Debug_skipping_upload f) \<in> set es)"
proof (induction es)
  case Nil
  show ?case by (simp add: skipped_uploads_def)
next
  case (Cons e es)
  have "f \<in> set (upload_skipped e) \<longleftrightarrow> e = Log (Debug_skipping_upload f)"
    by (cases e; simp add: upload_skipped_def split: log_line.splits) auto
  then show ?case using Cons by (auto simp: skipped_uploads_def)
qed

lemma upload_to_s3_count:
  assumes "returned (upload_to_s3 w p fs force dry) = Inr success"
  shows "\<exists>n. returned (upload_loop p force dry fs 0 w) = Inr n \<and> success = (n = length fs) \<and>
           n + length (skipped_uploads (events_since w (final (upload_to_s3 w p fs force dry))))
             \<le> length fs"
proof (rule upload_to_s3_cases[of fs w p force dry])
  assume e: "fs = []"
    and res: "upload_to_s3 w p fs force dry = Inr (True, logger Warning_no_local_files w)"
  from assms have "success = True" unfolding res by (simp add: returned_def)
  then show ?thesis unfolding res using e
    by (simp add: returned_def final_def logger_def emit_def events_since_def)
next
  fix e w1
  assume "upload_to_s3 w p fs force dry = Inl (e, w1)"
  with assms show ?thesis by (simp add: returned_def)
next
  fix n w1
  assume loop: "upload_loop p force dry fs 0 w = Inr (n, w1)"
    and res: "upload_to_s3 w p fs force dry =
         Inr (n = length fs,
              logger (if \<not> dry then Info_uploaded n (length fs)
                      else Info_would_upload_total n (length fs)) w1)"
  from assms have s: "success = (n = length fs)" unfolding res by (simp add: returned_def)
  from loop obtain es where es: "trace w1 = trace w @ es"
    "n + length (skipped_uploads es) \<le> 0 + length fs"
    by (rule upload_loop_countE)
  have "returned (upload_loop p force dry fs 0 w) = Inr n" using loop by (simp add: returned_def)
  moreover have "n + length (skipped_uploads (events_since w (final (upload_to_s3 w p fs force dry))))
             \<le> length fs"
    unfolding res using es by (cases dry) (simp_all add: final_def logger_def emit_def)
  ultimately show ?thesis using s by blast
qed

lemma main_upload_skipped:
  assumes nt: "\<not> args_test_connection a" and nd: "\<not> args_download a"
      and ret: "returned (main a h w) = Inr code"
      and sk: "skipped_uploads (events_since w (final (main a h w))) \<noteq> []"
  shows "code = 1"
proof (cases "load_s3_config (env_S3_BUCKET_NAME h) (env_S3_REGION h) (s3_config_file h)")
  case (Inl e)
  with ret show ?thesis by (simp add: main_def returned_def)
next
  case (Inr cfg)
  let ?cfg = cfg
  let ?w1 = "logger Info_starting_upload w"
  show ?thesis
  proof (cases "\<exists>b s. ?cfg ''bucket'' = Some b \<and> truthy b \<and> ?cfg ''sync_enabled'' = Some s \<and>
                   truthy s \<and> ?cfg ''region'' \<noteq> None \<and> \<not> create_client_fails h")
    case False
    with ret Inr show ?thesis
      by (auto simp: main_def Let_def returned_def split: option.splits if_splits)
  next
    case True
    then have m: "main a h w = main_upload a h ?cfg w"
      using nt nd Inr by (auto simp: main_def Let_def main_action_def)
    show ?thesis
    proof (cases "?cfg ''prefix''")
      case None
      with ret m show ?thesis by (simp add: main_upload_def Let_def returned_def)
    next
      case (Some pv)
      let ?u = "upload_to_s3 ?w1 (py_str pv) (local_files_found h) (args_force a) (args_dry_run a)"
      show ?thesis
      proof (cases ?u)
        case (Inl ew)
        with ret m Some show ?thesis
          by (auto simp: main_upload_def Let_def returned_def split: prod.splits)
      next
        case (Inr sw)
        obtain success w' where sw: "sw = (success, w')" by (cases sw)
        with Inr m Some have res: "main a h w = Inr (exit_status success, w')"
          by (simp add: main_upload_def Let_def)
        from ret res have code: "code = exit_status success" by (simp add: returned_def)
        from Inr sw have ru: "returned ?u = Inr success" and fu: "final ?u = w'"
          by (simp_all add: returned_def final_def)
        from upload_to_s3_count[OF ru] fu
        have le: "\<exists>n. success = (n = length (local_files_found h)) \<and>
                  n + length (skipped_uploads (events_since ?w1 w')) \<le> length (local_files_found h)"
          by auto
        have ext: "\<exists>es. trace w' = trace ?w1 @ es"
        proof (rule upload_to_s3_cases[of "local_files_found h" ?w1 "py_str pv" "args_force a"
                 "args_dry_run a"])
          assume "?u = Inr (True, logger Warning_no_local_files ?w1)"
          with Inr sw show ?thesis by (simp add: logger_def emit_def)
        next
          fix e w2 assume "?u = Inl (e, w2)"
          with Inr show ?thesis by simp
        next
          fix n w2
          assume loop: "upload_loop (py_str pv) (args_force a) (args_dry_run a)
                          (local_files_found h) 0 ?w1 = Inr (n, w2)"
            and r: "?u = Inr (n = length (local_files_found h),
                  logger (if \<not> args_dry_run a then Info_uploaded n (length (local_files_found h))
                          else Info_would_upload_total n (length (local_files_found h))) w2)"
          from loop obtain es where "trace w2 = trace ?w1 @ es" by (rule upload_loop_countE)
          with r Inr sw show ?thesis by (auto simp: logger_def emit_def)
        qed
        then obtain es where es: "trace w' = trace ?w1 @ es" by blast
        then have e1: "events_since ?w1 w' = es" by (rule events_since_append)
        have "trace w' = trace w @ (Log Info_starting_upload # es)"
          using es by (simp add: logger_def emit_def)
        then have e0: "events_since w w' = Log Info_starting_upload # es"
          by (rule events_since_append)
        from sk res have "skipped_uploads (Log Info_starting_upload # es) \<noteq> []"
          by (simp add: final_def e0)
        then have "skipped_uploads es \<noteq> []"
          by (simp add: skipped_uploads_def upload_skipped_def)
        with le e1 have "\<not> success" by (cases "skipped_uploads es") auto
        with code show ?thesis by (simp add: exit_status_def)
      qed
    qed
  qed
qed

text \<open>
  C5. \<open>upload_to_s3\<close> returns \<open>True\<close> exactly when the count kept by its loop equals
  the number of candidate files. A file skipped as up to date is not counted, so a run
  that skips a file returns \<open>False\<close>: any non-forced run (dry, or with pairwise distinct
  keys) in which some candidate's remote copy is as new or newer. \<open>main\<close> then exits with
  code 1.
\<close>

theorem upload_success_iff_all_counted:
  assumes run: "returned (upload_to_s3 w prefix local_files force dry_run) = Inr success"
  shows "(\<exists>n. returned (upload_loop prefix force dry_run local_files 0 w) = Inr n \<and>
              success = (n = length local_files) \<and>
              n + length (skipped_uploads
                            (events_since w (final (upload_to_s3 w prefix local_files force dry_run))))
                \<le> length local_files) \<and>
         (\<forall>f. Log (Debug_skipping_upload f) \<in>
                 set (events_since w (final (upload_to_s3 w prefix local_files force dry_run))) \<longrightarrow>
              \<not> success \<and> exit_status success = 1) \<and>
         (\<forall>f\<in>set local_files. \<forall>t.
            \<not> force \<and> (dry_run \<or> distinct (map (s3_key_of prefix) local_files)) \<and>
            head_response w (s3_key_of prefix f) = Inr t \<and> st_mtime f \<le> t \<longrightarrow>
            \<not> success \<and> exit_status success = 1) \<and>
         (\<forall>a h code.
            \<not> args_test_connection a \<and> \<not> args_download a \<and>
            returned (main a h w) = Inr code \<and>
            skipped_uploads (events_since w (final (main a h w))) \<noteq> [] \<longrightarrow>
            code = 1)"
proof -
  let ?es = "events_since w (final (upload_to_s3 w prefix local_files force dry_run))"
  from upload_to_s3_count[OF run] obtain n where
    n: "returned (upload_loop prefix force dry_run local_files 0 w) = Inr n"
       "success = (n = length local_files)"
       "n + length (skipped_uploads ?es) \<le> length local_files" by blast
  have skip: "\<not> success \<and> exit_status success = 1" if "skipped_uploads ?es \<noteq> []"
  proof -
    from that have "0 < length (skipped_uploads ?es)" by simp
    with n(2,3) have "\<not> success" by auto
    then show ?thesis by (simp add: exit_status_def)
  qed
  have a: "\<forall>f. Log (Debug_skipping_upload f) \<in> set ?es \<longrightarrow> \<not> success \<and> exit_status success = 1"
  proof (intro allI impI)
    fix f assume "Log (Debug_skipping_upload f) \<in> set ?es"
    then have "f \<in> set (skipped_uploads ?es)" by (simp add: skipped_uploads_logged)
    then have "skipped_uploads ?es \<noteq> []" by auto
    then show "\<not> success \<and> exit_status success = 1" by (rule skip)
  qed
  have b: "\<forall>f\<in>set local_files. \<forall>t.
            \<not> force \<and> (dry_run \<or> distinct (map (s3_key_of prefix) local_files)) \<and>
            head_response w (s3_key_of prefix f) = Inr t \<and> st_mtime f \<le> t \<longrightarrow>
            \<not> success \<and> exit_status success = 1"
  proof (intro ballI allI impI)
    fix f t
    assume f: "f \<in> set local_files"
      and h: "\<not> force \<and> (dry_run \<or> distinct (map (s3_key_of prefix) local_files)) \<and>
            head_response w (s3_key_of prefix f) = Inr t \<and> st_mtime f \<le> t"
    then have sep: "dry_run \<or> distinct (map (s3_key_of prefix) local_files)" by simp
    from upload_to_s3_plan[OF run sep]
    have "skipped_uploads ?es =
           filter (\<lambda>f. \<not> force \<and>
                       (\<exists>t. head_response w (s3_key_of prefix f) = Inr t \<and> st_mtime f \<le> t))
             local_files" by blast
    with f h have "f \<in> set (skipped_uploads ?es)" by auto
    then have "skipped_uploads ?es \<noteq> []" by auto
    then show "\<not> success \<and> exit_status success = 1" by (rule skip)
  qed
  have c: "\<forall>a h code.
            \<not> args_test_connection a \<and> \<not> args_download a \<and>
            returned (main a h w) = Inr code \<and>
            skipped_uploads (events_since w (final (main a h w))) \<noteq> [] \<longrightarrow>
            code = 1"
    using main_upload_skipped by blast
  from n a b c show ?thesis by blast
qed


lemmas main_defs = main_def main_action_def main_upload_def main_download_def load_s3_config_def
  default_config_def exit_status_def saved_config_def upload_args_def test_args_def mirror_host_def

theorem upload_success_iff_all_counted_witness:
  "returned (upload_to_s3 nightly ''clamav/databases/''
              [daily_local, main_local, bytecode_local] False False) = Inr False \<and>
   returned (upload_loop ''clamav/databases/'' False False
              [daily_local, main_local, bytecode_local] 0 nightly) = Inr 2 \<and>
   exit_status False = 1 \<and>
   returned (main upload_args mirror_host nightly) = Inr 1"
proof -
  have run: "returned (upload_to_s3 nightly ''clamav/databases/''
              [daily_local, main_local, bytecode_local] False False) = Inr False"
    by (simp add: upload_defs returned_def example_defs)
  note t = upload_success_iff_all_counted[OF run]
  have skip: "Log (Debug_skipping_upload bytecode_local) \<in>
      set (events_since nightly (final (upload_to_s3 nightly ''clamav/databases/''
              [daily_local, main_local, bytecode_local] False False)))"
    by (simp add: upload_defs final_def events_since_def example_defs)
  from t skip have e: "exit_status False = 1" by blast
  from t obtain n where n: "returned (upload_loop ''clamav/databases/'' False False
              [daily_local, main_local, bytecode_local] 0 nightly) = Inr n" by blast
  have "returned (upload_loop ''clamav/databases/'' False False
              [daily_local, main_local, bytecode_local] 0 nightly) = Inr 2"
    by (simp add: upload_defs returned_def example_defs)
  moreover have m: "returned (main upload_args mirror_host nightly) = Inr 1"
    by (simp add: main_defs upload_defs returned_def example_defs)
  ultimately show ?thesis using run e by simp
qed

section \<open>The connection test\<close>

text \<open>
  C9. When \<open>head_bucket\<close> succeeds and the listing probe raises the client error
  \<open>AccessDenied\<close>, \<open>test_s3_connection\<close> logs the warning about limited list
  permissions, logs no failure and returns \<open>True\<close>; \<open>main\<close>, called with
  \<open>--test-connection\<close> and a usable configuration, exits with code 0.
\<close>

theorem access_denied_listing_is_a_warning:
  assumes hb: "head_bucket_response (surr w) = Inr region"
      and ls: "list_response (surr w) [] = Inl (ClientError ''AccessDenied'')"
  shows "returned (test_s3_connection w) = Inr True \<and>
         events_since w (final (test_s3_connection w)) =
           [Log Info_testing_connection, Call HeadBucket, Log Info_bucket_accessible,
            Log (Info_bucket_region (case region of None \<Rightarrow> ''unknown'' | Some r \<Rightarrow> r)),
            Call (ListObjectsV2 []), Log Warning_limited_list_permissions,
            Log Info_connection_test_successful] \<and>
         (\<forall>a h s3_config bucket sync_enabled.
            args_test_connection a \<and>
            load_s3_config (env_S3_BUCKET_NAME h) (env_S3_REGION h) (s3_config_file h) =
              Inr s3_config \<and>
            s3_config ''bucket'' = Some bucket \<and> truthy bucket \<and>
            s3_config ''sync_enabled'' = Some sync_enabled \<and> truthy sync_enabled \<and>
            s3_config ''region'' \<noteq> None \<and>
            \<not> create_client_fails h \<longrightarrow>
            returned (main a h w) = Inr 0)"
proof -
  let ?w' = "w\<lparr>trace := trace w @
           [Log Info_testing_connection, Call HeadBucket, Log Info_bucket_accessible,
            Log (Info_bucket_region (case region of None \<Rightarrow> ''unknown'' | Some r \<Rightarrow> r)),
            Call (ListObjectsV2 []), Log Warning_limited_list_permissions,
            Log Info_connection_test_successful]\<rparr>"
  have r: "test_s3_connection w = Inr (True, ?w')"
    using hb ls
    by (simp add: test_s3_connection_def head_bucket_def list_objects_v2_def logger_def emit_def
          Let_def)
  have "returned (test_s3_connection w) = Inr True" unfolding r by (simp add: returned_def)
  moreover have "events_since w (final (test_s3_connection w)) =
           [Log Info_testing_connection, Call HeadBucket, Log Info_bucket_accessible,
            Log (Info_bucket_region (case region of None \<Rightarrow> ''unknown'' | Some r \<Rightarrow> r)),
            Call (ListObjectsV2 []), Log Warning_limited_list_permissions,
            Log Info_connection_test_successful]"
    unfolding r by (simp add: final_def events_since_def)
  moreover have "\<forall>a h s3_config bucket sync_enabled.
            args_test_connection a \<and>
            load_s3_config (env_S3_BUCKET_NAME h) (env_S3_REGION h) (s3_config_file h) =
              Inr s3_config \<and>
            s3_config ''bucket'' = Some bucket \<and> truthy bucket \<and>
            s3_config ''sync_enabled'' = Some sync_enabled \<and> truthy sync_enabled \<and>
            s3_config ''region'' \<noteq> None \<and>
            \<not> create_client_fails h \<longrightarrow>
            returned (main a h w) = Inr 0"
    by (auto simp: main_def main_action_def Let_def r returned_def exit_status_def)
  ultimately show ?thesis by (intro conjI)
qed

theorem access_denied_listing_is_a_warning_witness:
  "returned (test_s3_connection denied_listing) = Inr True \<and>
   Log Warning_limited_list_permissions \<in>
     set (events_since denied_listing (final (test_s3_connection denied_listing))) \<and>
   returned (main test_args mirror_host denied_listing) = Inr 0"
proof -
  have hb: "head_bucket_response (surr denied_listing) = Inr (Some ''us-west-2'')"
    by (simp add: example_defs)
  have ls: "list_response (surr denied_listing) [] = Inl (ClientError ''AccessDenied'')"
    by (simp add: example_defs)
  note t = access_denied_listing_is_a_warning[OF hb ls]
  have cfg: "args_test_connection test_args \<and>
      load_s3_config (env_S3_BUCKET_NAME mirror_host) (env_S3_REGION mirror_host)
        (s3_config_file mirror_host) = Inr saved_config \<and>
      saved_config ''bucket'' = Some (JStr ''mirror-bucket'') \<and>
      truthy (JStr ''mirror-bucket'') \<and>
      saved_config ''sync_enabled'' = Some (JBool True) \<and>
      truthy (JBool True) \<and>
      saved_config ''region'' \<noteq> None \<and>
      \<not> create_client_fails mirror_host"
    by (simp add: load_s3_config_def saved_config_def test_args_def mirror_host_def)
  from t cfg have "returned (main test_args mirror_host denied_listing) = Inr 0" by blast
  moreover from t have "returned (test_s3_connection denied_listing) = Inr True" by blast
  moreover from t have "Log Warning_limited_list_permissions \<in>
     set (events_since denied_listing (final (test_s3_connection denied_listing)))" by simp
  ultimately show ?thesis by (intro conjI)
qed

end
